theory Spec2Isabelle
  imports Complex_Main "HOL-Library.Word" "HOL-Library.Multiset"
begin

section \<open>JavaScript numbers\<close>

text \<open>
  A JavaScript number is modelled as a real, one of the two infinities, or NaN.
  Rounding and the sign of zero are not modelled: a finite operation returns the exact
  real result, and a zero divisor is taken as \<open>+0\<close>. Reading a missing array element
  gives \<open>undefined\<close>, which every arithmetic use turns into NaN.
\<close>

datatype jsnum = Num real | PInf | NInf | NaN

instantiation jsnum :: "{plus, uminus, minus, times, inverse, abs, ord}"
begin

fun plus_jsnum :: "jsnum \<Rightarrow> jsnum \<Rightarrow> jsnum" where
  "plus_jsnum NaN _ = NaN"
| "plus_jsnum _ NaN = NaN"
| "plus_jsnum (Num a) (Num b) = Num (a + b)"
| "plus_jsnum PInf NInf = NaN"
| "plus_jsnum NInf PInf = NaN"
| "plus_jsnum PInf _ = PInf"
| "plus_jsnum _ PInf = PInf"
| "plus_jsnum NInf _ = NInf"
| "plus_jsnum _ NInf = NInf"

fun uminus_jsnum :: "jsnum \<Rightarrow> jsnum" where
  "uminus_jsnum (Num a) = Num (- a)"
| "uminus_jsnum PInf = NInf"
| "uminus_jsnum NInf = PInf"
| "uminus_jsnum NaN = NaN"

definition minus_jsnum :: "jsnum \<Rightarrow> jsnum \<Rightarrow> jsnum" where
  "minus_jsnum a b = a + (- b)"

fun times_jsnum :: "jsnum \<Rightarrow> jsnum \<Rightarrow> jsnum" where
  "times_jsnum NaN _ = NaN"
| "times_jsnum _ NaN = NaN"
| "times_jsnum (Num a) (Num b) = Num (a * b)"
| "times_jsnum (Num a) PInf = (if a = 0 then NaN else if 0 < a then PInf else NInf)"
| "times_jsnum (Num a) NInf = (if a = 0 then NaN else if 0 < a then NInf else PInf)"
| "times_jsnum PInf (Num b) = (if b = 0 then NaN else if 0 < b then PInf else NInf)"
| "times_jsnum NInf (Num b) = (if b = 0 then NaN else if 0 < b then NInf else PInf)"
| "times_jsnum PInf PInf = PInf"
| "times_jsnum NInf NInf = PInf"
| "times_jsnum PInf NInf = NInf"
| "times_jsnum NInf PInf = NInf"

fun divide_jsnum :: "jsnum \<Rightarrow> jsnum \<Rightarrow> jsnum" where
  "divide_jsnum NaN _ = NaN"
| "divide_jsnum _ NaN = NaN"
| "divide_jsnum (Num a) (Num b) =
     (if b \<noteq> 0 then Num (a / b)
      else if a = 0 then NaN else if 0 < a then PInf else NInf)"
| "divide_jsnum (Num a) _ = Num 0"
| "divide_jsnum PInf (Num b) = (if 0 \<le> b then PInf else NInf)"
| "divide_jsnum NInf (Num b) = (if 0 \<le> b then NInf else PInf)"
| "divide_jsnum _ _ = NaN"

definition inverse_jsnum :: "jsnum \<Rightarrow> jsnum" where
  "inverse_jsnum a = divide (Num 1) a"

fun abs_jsnum :: "jsnum \<Rightarrow> jsnum" where
  "abs_jsnum (Num a) = Num \<bar>a\<bar>"
| "abs_jsnum PInf = PInf"
| "abs_jsnum NInf = PInf"
| "abs_jsnum NaN = NaN"

fun less_jsnum :: "jsnum \<Rightarrow> jsnum \<Rightarrow> bool" where
  "less_jsnum NaN _ = False"
| "less_jsnum _ NaN = False"
| "less_jsnum (Num a) (Num b) = (a < b)"
| "less_jsnum _ NInf = False"
| "less_jsnum PInf _ = False"
| "less_jsnum _ _ = True"

definition less_eq_jsnum :: "jsnum \<Rightarrow> jsnum \<Rightarrow> bool" where
  "less_eq_jsnum a b = (a < b \<or> (a = b \<and> a \<noteq> NaN))"

instance ..

end

text \<open>\<open>Math.max\<close> and \<open>Math.min\<close> return NaN as soon as one argument is NaN.\<close>

fun Math_max :: "jsnum \<Rightarrow> jsnum \<Rightarrow> jsnum" where
  "Math_max NaN _ = NaN"
| "Math_max _ NaN = NaN"
| "Math_max a b = (if a < b then b else a)"

fun Math_min :: "jsnum \<Rightarrow> jsnum \<Rightarrow> jsnum" where
  "Math_min NaN _ = NaN"
| "Math_min _ NaN = NaN"
| "Math_min a b = (if b < a then b else a)"

fun Math_sqrt :: "jsnum \<Rightarrow> jsnum" where
  "Math_sqrt (Num a) = (if a < 0 then NaN else Num (sqrt a))"
| "Math_sqrt PInf = PInf"
| "Math_sqrt NInf = NaN"
| "Math_sqrt NaN = NaN"

text \<open>\<open>Math.pow\<close> with a natural exponent (the source only squares).\<close>

primrec Math_pow :: "jsnum \<Rightarrow> nat \<Rightarrow> jsnum" where
  "Math_pow a 0 = Num 1"
| "Math_pow a (Suc n) = a * Math_pow a n"

section \<open>Data model\<close>

text \<open>
  \<open>ImageData\<close>: width, height and the \<open>Uint8ClampedArray\<close> of interleaved RGBA bytes.
\<close>

record ImageData =
  width :: nat
  height :: nat
  data :: "8 word list"

definition valid_buffer :: "ImageData \<Rightarrow> bool" where
  "valid_buffer imageData =
     (0 < width imageData \<and> 0 < height imageData \<and>
      length (data imageData) = width imageData * height imageData * 4)"

text \<open>\<open>data[i]\<close> at an integer index: a byte, or \<open>undefined\<close> (NaN in arithmetic).\<close>

definition data_at :: "8 word list \<Rightarrow> nat \<Rightarrow> jsnum" where
  "data_at d i = (if i < length d then Num (real (unat (d ! i))) else NaN)"

text \<open>\<open>data[idx]\<close> at a computed index, which may be fractional or negative.\<close>

definition data_at_num :: "8 word list \<Rightarrow> real \<Rightarrow> jsnum" where
  "data_at_num d idx =
     (if 0 \<le> idx \<and> idx = real_of_int \<lfloor>idx\<rfloor> then data_at d (nat \<lfloor>idx\<rfloor>) else NaN)"

text \<open>A crop rectangle \<open>{x, y, width, height}\<close> of finite numbers.\<close>

record CropSelection =
  crop_x :: real
  crop_y :: real
  crop_width :: real
  crop_height :: real

section \<open>AIComposer: rule of thirds and golden ratio\<close>

definition ruleOfThirdsAnalysis :: "ImageData \<Rightarrow> CropSelection option \<Rightarrow> jsnum" where
  "ruleOfThirdsAnalysis imageData cropSelection =
     (case cropSelection of
        None \<Rightarrow> Num 0.5
      | Some crop \<Rightarrow>
          (let w = Num (real (width imageData));
               h = Num (real (height imageData));
               thirdX = w / Num 3;
               thirdY = h / Num 3;
               cropCenterX = Num (crop_x crop) + Num (crop_width crop) / Num 2;
               cropCenterY = Num (crop_y crop) + Num (crop_height crop) / Num 2;
               intersections =
                 [(thirdX, thirdY), (Num 2 * thirdX, thirdY),
                  (thirdX, Num 2 * thirdY), (Num 2 * thirdX, Num 2 * thirdY)]
           in fold (\<lambda>(ix, iy) bestScore.
                      let distance = Math_sqrt (Math_pow (cropCenterX - ix) 2 +
                                                Math_pow (cropCenterY - iy) 2);
                          score = Math_max (Num 0)
                                    (Num 1 - distance / (Math_min w h / Num 4))
                      in Math_max bestScore score)
                intersections (Num 0)))"

definition goldenRatioAnalysis :: "ImageData \<Rightarrow> CropSelection option \<Rightarrow> jsnum" where
  "goldenRatioAnalysis imageData cropSelection =
     (case cropSelection of
        None \<Rightarrow> Num 0.5
      | Some crop \<Rightarrow>
          (let goldenRatio = Num 1.618;
               cropRatio = Num (crop_width crop) / Num (crop_height crop);
               ratioDifference = \<bar>cropRatio - goldenRatio\<bar>
           in Math_max (Num 0) (Num 1 - ratioDifference / goldenRatio)))"

section \<open>CompositionUtils: Fibonacci grid\<close>

record GridPoint =
  point_x :: real
  point_y :: real
  point_type :: string

definition fib :: "real list" where
  "fib = [1, 1, 2, 3, 5, 8, 13, 21, 34, 55, 89, 144]"

text \<open>
  \<open>generateFibonacciGrid(width, height)\<close> for finite \<open>width\<close> and \<open>height\<close>; the loop
  starts at index 1.
\<close>

definition generateFibonacciGrid :: "real \<Rightarrow> real \<Rightarrow> GridPoint list" where
  "generateFibonacciGrid w h =
     map (\<lambda>i. let ratio = fib ! i / fib ! (length fib - 1)
               in \<lparr>point_x = ratio * w, point_y = ratio * h, point_type = ''fibonacci''\<rparr>)
         [1..<length fib]"

section \<open>Loops and arrays\<close>

text \<open>
  The counter values of \<open>for (i = start; i < stop; i += step)\<close> with integer counters.
  The source only uses positive constant steps.
\<close>

function for_range :: "nat \<Rightarrow> nat \<Rightarrow> nat \<Rightarrow> nat list" where
  "for_range i stop step =
     (if i < stop \<and> 0 < step then i # for_range (i + step) stop step else [])"
  by pat_completeness auto
termination
  by (relation "measure (\<lambda>(i, stop, step). stop - i)") auto

declare for_range.simps [simp del]

text \<open>
  The same for a counter that may be fractional. With a step that is not positive the
  source loop would not advance; callers treat that case before they use the list.
\<close>

function for_range_num :: "real \<Rightarrow> real \<Rightarrow> real \<Rightarrow> real list" where
  "for_range_num i stop step =
     (if i < stop \<and> 0 < step then i # for_range_num (i + step) stop step else [])"
  by pat_completeness auto
termination
proof (relation "measure (\<lambda>(i, stop, step). nat \<lceil>(stop - i) / step\<rceil>)")
  show "wf (measure (\<lambda>(i, stop, step). nat \<lceil>(stop - i) / step\<rceil>))"
    by simp
next
  fix i stop step :: real
  assume a: "i < stop \<and> 0 < step"
  then have "(stop - (i + step)) / step = (stop - i) / step - 1"
    by (simp add: field_simps)
  moreover from a have "0 < (stop - i) / step"
    by simp
  ultimately have "nat \<lceil>(stop - (i + step)) / step\<rceil> < nat \<lceil>(stop - i) / step\<rceil>"
    by simp
  then show "((i + step, stop, step), (i, stop, step))
        \<in> measure (\<lambda>(i, stop, step). nat \<lceil>(stop - i) / step\<rceil>)"
    by simp
qed

declare for_range_num.simps [simp del]

text \<open>
  \<open>Array.prototype.sort(compare)\<close>: a stable sort (ECMAScript 2019). An element moves
  behind another one only when the comparator is positive; a NaN comparator counts as 0.
\<close>

fun insert_sorted :: "('a \<Rightarrow> 'a \<Rightarrow> jsnum) \<Rightarrow> 'a \<Rightarrow> 'a list \<Rightarrow> 'a list" where
  "insert_sorted compare a [] = [a]"
| "insert_sorted compare a (b # bs) =
     (if Num 0 < compare a b then b # insert_sorted compare a bs else a # b # bs)"

definition Array_sort :: "('a \<Rightarrow> 'a \<Rightarrow> jsnum) \<Rightarrow> 'a list \<Rightarrow> 'a list" where
  "Array_sort compare xs = foldr (insert_sorted compare) xs []"

fun Math_floor :: "jsnum \<Rightarrow> jsnum" where
  "Math_floor (Num a) = Num (real_of_int \<lfloor>a\<rfloor>)"
| "Math_floor a = a"

section \<open>ImageUtils\<close>

record Color =
  color_r :: jsnum
  color_g :: jsnum
  color_b :: jsnum

text \<open>
  \<open>colorCounts[colorKey] = (colorCounts[colorKey] || 0) + 1\<close> on an object whose keys
  keep their insertion order. The key string \<open>"r,g,b"\<close> is kept as the triple it prints.
\<close>

fun increment :: "'k \<Rightarrow> ('k \<times> nat) list \<Rightarrow> ('k \<times> nat) list" where
  "increment k [] = [(k, 1)]"
| "increment k ((k', c) # rest) =
     (if k' = k then (k', c + 1) # rest else (k', c) # increment k rest)"

definition colorCounts :: "8 word list \<Rightarrow> ((jsnum \<times> jsnum \<times> jsnum) \<times> nat) list" where
  "colorCounts d =
     fold (\<lambda>i counts.
             let r = data_at d i;
                 g = data_at d (i + 1);
                 b = data_at d (i + 2);
                 quantizedR = Math_floor (r / Num 32) * Num 32;
                 quantizedG = Math_floor (g / Num 32) * Num 32;
                 quantizedB = Math_floor (b / Num 32) * Num 32
             in increment (quantizedR, quantizedG, quantizedB) counts)
          (for_range 0 (length d) 40) []"

definition getDominantColors :: "ImageData \<Rightarrow> nat \<Rightarrow> Color list" where
  "getDominantColors imageData numColors =
     map (\<lambda>((r, g, b), count). \<lparr>color_r = r, color_g = g, color_b = b\<rparr>)
         (take numColors
            (Array_sort (\<lambda>(ka, a) (kb, b). Num (real b) - Num (real a))
               (colorCounts (data imageData))))"

definition getBrightness :: "ImageData \<Rightarrow> jsnum" where
  "getBrightness imageData =
     (let d = data imageData;
          (totalBrightness, pixelCount) =
            fold (\<lambda>i (totalBrightness, pixelCount).
                    let r = data_at d i;
                        g = data_at d (i + 1);
                        b = data_at d (i + 2);
                        brightness = (Num 0.299 * r + Num 0.587 * g + Num 0.114 * b) / Num 255
                    in (totalBrightness + brightness, pixelCount + 1))
                 (for_range 0 (length d) 4) (Num 0, 0::nat)
      in totalBrightness / Num (real pixelCount))"

definition sobelX :: "real list" where
  "sobelX = [-1, 0, 1, -2, 0, 2, -1, 0, 1]"

definition sobelY :: "real list" where
  "sobelY = [-1, -2, -1, 0, 0, 0, 1, 2, 1]"

text \<open>The body of the two pixel loops of \<open>detectEdges\<close>: the magnitude at \<open>(x, y)\<close>.\<close>

definition magnitude :: "ImageData \<Rightarrow> nat \<Rightarrow> nat \<Rightarrow> jsnum" where
  "magnitude imageData x y =
     (let d = data imageData;
          (gx, gy) =
            fold (\<lambda>ky. fold (\<lambda>kx (gx, gy).
                    let idx = nat ((int y + ky) * int (width imageData) + (int x + kx)) * 4;
                        gray = (data_at d idx + data_at d (idx + 1) + data_at d (idx + 2)) / Num 3;
                        kernelIdx = nat ((ky + 1) * 3 + (kx + 1))
                    in (gx + gray * Num (sobelX ! kernelIdx),
                        gy + gray * Num (sobelY ! kernelIdx)))
                  [-1, 0, 1])
              [-1, 0, 1] (Num 0, Num 0)
      in Math_sqrt (gx * gx + gy * gy))"

text \<open>
  \<open>detectEdges\<close> (the copies in \<open>ImageUtils\<close>, \<open>AIComposer\<close> and
  \<open>AdvancedImageAnalysis\<close> are the same code). \<open>new Array(width * height)\<close> has no
  elements: an entry that the loops do not write stays a hole (\<open>None\<close>), which reads as
  \<open>undefined\<close>.
\<close>

definition detectEdges :: "ImageData \<Rightarrow> jsnum option list" where
  "detectEdges imageData =
     (let w = width imageData; h = height imageData
      in fold (\<lambda>y. fold (\<lambda>x edges. edges[y * w + x := Some (magnitude imageData x y)])
                      [1..<w - 1])
           [1..<h - 1] (replicate (w * h) None))"

text \<open>\<open>edges[idx]\<close> at a computed index; \<open>None\<close> is \<open>undefined\<close>.\<close>

definition edges_at :: "jsnum option list \<Rightarrow> real \<Rightarrow> jsnum option" where
  "edges_at edges idx =
     (if 0 \<le> idx \<and> idx = real_of_int \<lfloor>idx\<rfloor> \<and> nat \<lfloor>idx\<rfloor> < length edges
      then edges ! nat \<lfloor>idx\<rfloor> else None)"

definition truthy :: "jsnum option \<Rightarrow> bool" where
  "truthy v = (case v of None \<Rightarrow> False | Some n \<Rightarrow> n \<noteq> Num 0 \<and> n \<noteq> NaN)"

text \<open>A region \<open>{x, y, width, height}\<close>; a region of interest also has a \<open>score\<close>.\<close>

record Region =
  region_x :: jsnum
  region_y :: jsnum
  region_width :: jsnum
  region_height :: jsnum
  region_score :: "jsnum option"

definition roi_score :: "Region \<Rightarrow> jsnum" where
  "roi_score roi = (case region_score roi of None \<Rightarrow> NaN | Some s \<Rightarrow> s)"

text \<open>
  \<open>findRegionsOfInterest\<close>. With a window of size 0 (width 0) and a positive height the
  outer loop never advances: the function does not return (\<open>None\<close>).
\<close>

definition findRegionsOfInterest :: "ImageData \<Rightarrow> Region list option" where
  "findRegionsOfInterest imageData =
     (let edges = detectEdges imageData;
          w = real (width imageData);
          h = real (height imageData);
          windowSize = min w h / 4
      in if windowSize / 2 \<le> 0 \<and> 0 < h - windowSize then None
         else
           Some (take 5 (Array_sort (\<lambda>a b. roi_score b - roi_score a)
             (fold (\<lambda>y. fold (\<lambda>x rois.
                      let (edgeSum, pixelCount) =
                            fold (\<lambda>wy. fold (\<lambda>wx (edgeSum, pixelCount).
                                    let idx = (y + wy) * w + (x + wx)
                                    in (if truthy (edges_at edges idx)
                                        then edgeSum + the (edges_at edges idx) else edgeSum,
                                        pixelCount + 1))
                                  (for_range_num 0 windowSize 1))
                              (for_range_num 0 windowSize 1) (Num 0, 0::nat);
                          edgeDensity = edgeSum / Num (real pixelCount)
                      in if Num 10 < edgeDensity
                         then rois @ [\<lparr>region_x = Num x / Num w, region_y = Num y / Num h,
                                       region_width = Num windowSize / Num w,
                                       region_height = Num windowSize / Num h,
                                       region_score = Some edgeDensity\<rparr>]
                         else rois)
                    (for_range_num 0 (w - windowSize) (windowSize / 2)))
                (for_range_num 0 (h - windowSize) (windowSize / 2)) []))))"

section \<open>AISuggestions\<close>

record Suggestion =
  sug_name :: string
  sug_description :: string
  sug_crop :: Region
  sug_score :: jsnum

text \<open>The suggestions in the order in which \<open>generateCropSuggestions\<close> pushes them.\<close>

definition pushedSuggestions :: "ImageData \<Rightarrow> Suggestion list option" where
  "pushedSuggestions imageData =
     (let brightness = getBrightness imageData;
          dominantColors = getDominantColors imageData 5
      in case findRegionsOfInterest imageData of
           None \<Rightarrow> None
         | Some rois \<Rightarrow>
             (let goldenRatio = Num 1.618;
                  cropWidth = Num 0.6;
                  cropHeight = cropWidth / goldenRatio
              in Some
                ([\<lparr>sug_name = ''Balanced Composition'',
                   sug_description = ''Centered crop with balanced elements'',
                   sug_crop = \<lparr>region_x = Num 0.2, region_y = Num 0.2, region_width = Num 0.6,
                               region_height = Num 0.6, region_score = None\<rparr>,
                   sug_score = Num 75\<rparr>] @
                 (if 0 < length rois
                  then [\<lparr>sug_name = ''Focus on Interest'',
                         sug_description = ''Crop focused on the most interesting region'',
                         sug_crop = hd rois,
                         sug_score = Num 85\<rparr>]
                  else []) @
                 (if brightness < Num 0.4
                  then [\<lparr>sug_name = ''Dark Image Enhancement'',
                         sug_description = ''Crop to emphasize brighter areas'',
                         sug_crop = \<lparr>region_x = Num 0.1, region_y = Num 0.1,
                                     region_width = Num 0.8, region_height = Num 0.8,
                                     region_score = None\<rparr>,
                         sug_score = Num 70\<rparr>]
                  else []) @
                 [\<lparr>sug_name = ''Rule of Thirds'',
                   sug_description = ''Classic composition following rule of thirds'',
                   sug_crop = \<lparr>region_x = Num 0.33, region_y = Num 0.33,
                               region_width = Num 0.34, region_height = Num 0.34,
                               region_score = None\<rparr>,
                   sug_score = Num 80\<rparr>,
                  \<lparr>sug_name = ''Golden Ratio'',
                   sug_description = ''Crop following the golden ratio'',
                   sug_crop = \<lparr>region_x = Num 0.2, region_y = Num 0.2,
                               region_width = cropWidth, region_height = cropHeight,
                               region_score = None\<rparr>,
                   sug_score = Num 90\<rparr>])))"

text \<open>\<open>generateCropSuggestions(imageData, width, height)\<close>; the last two arguments are unused.\<close>

definition generateCropSuggestions :: "ImageData \<Rightarrow> real \<Rightarrow> real \<Rightarrow> Suggestion list option" where
  "generateCropSuggestions imageData w h =
     map_option (Array_sort (\<lambda>a b. sug_score b - sug_score a)) (pushedSuggestions imageData)"

section \<open>AdvancedImageAnalysis: grouping of sample points\<close>

text \<open>
  A classified sample point \<open>{x, y, score}\<close> of finite numbers, and a group as
  \<open>groupRegions\<close> builds it; \<open>averageScore\<close> is absent until the group is finished.
  \<open>absorb\<close> is the body of the inner \<open>forEach\<close>, \<open>seed\<close> the body of the outer one.
\<close>

record SamplePoint =
  pt_x :: real
  pt_y :: real
  pt_score :: real

record Bounds =
  minX :: real
  minY :: real
  maxX :: real
  maxY :: real

record Group =
  group_regions :: "SamplePoint list"
  group_center :: "real \<times> real"
  group_bounds :: Bounds
  group_totalScore :: real
  group_averageScore :: "real option"

definition absorb ::
  "SamplePoint list \<Rightarrow> jsnum \<Rightarrow> SamplePoint \<Rightarrow> nat \<Rightarrow> Group \<times> nat set \<Rightarrow> Group \<times> nat set" where
  "absorb regions maxDistance region otherIndex = (\<lambda>(group, visited).
     if otherIndex \<in> visited then (group, visited)
     else
       (let otherRegion = regions ! otherIndex;
            distance = Math_sqrt (Math_pow (Num (pt_x region) - Num (pt_x otherRegion)) 2 +
                                  Math_pow (Num (pt_y region) - Num (pt_y otherRegion)) 2)
        in if distance \<le> maxDistance
           then (group\<lparr>group_regions := group_regions group @ [otherRegion],
                       group_totalScore := group_totalScore group + pt_score otherRegion,
                       group_bounds :=
                         \<lparr>minX = min (minX (group_bounds group)) (pt_x otherRegion),
                          minY = min (minY (group_bounds group)) (pt_y otherRegion),
                          maxX = max (maxX (group_bounds group)) (pt_x otherRegion),
                          maxY = max (maxY (group_bounds group)) (pt_y otherRegion)\<rparr>\<rparr>,
                 insert otherIndex visited)
           else (group, visited)))"

definition seed ::
  "SamplePoint list \<Rightarrow> jsnum \<Rightarrow> nat \<Rightarrow> Group list \<times> nat set \<Rightarrow> Group list \<times> nat set" where
  "seed regions maxDistance index = (\<lambda>(groups, visited).
     if index \<in> visited then (groups, visited)
     else
       (let region = regions ! index;
            group0 = \<lparr>group_regions = [region],
                      group_center = (pt_x region, pt_y region),
                      group_bounds = \<lparr>minX = pt_x region, minY = pt_y region,
                                       maxX = pt_x region, maxY = pt_y region\<rparr>,
                      group_totalScore = pt_score region,
                      group_averageScore = None\<rparr>;
            (group, visited') =
              fold (absorb regions maxDistance region) [0..<length regions]
                (group0, insert index visited);
            bounds = group_bounds group
        in (groups @
              [group\<lparr>group_center := ((minX bounds + maxX bounds) / 2,
                                        (minY bounds + maxY bounds) / 2),
                     group_averageScore :=
                       Some (group_totalScore group / real (length (group_regions group)))\<rparr>],
            visited')))"

definition groupRegions :: "SamplePoint list \<Rightarrow> jsnum \<Rightarrow> Group list" where
  "groupRegions regions maxDistance =
     fst (fold (seed regions maxDistance) [0..<length regions] ([], {}))"


text \<open>What the inner loop keeps true of the group under construction.\<close>

definition group_ok :: "SamplePoint list \<Rightarrow> SamplePoint multiset \<Rightarrow> Group \<times> nat set \<Rightarrow> bool" where
  "group_ok regions others = (\<lambda>(group, visited).
     finite visited \<and>
     others + mset (group_regions group) = image_mset ((!) regions) (mset_set visited) \<and>
     group_totalScore group = sum_list (map pt_score (group_regions group)) \<and>
     group_regions group \<noteq> [])"

text \<open>What the outer loop keeps true of the finished groups.\<close>

definition groups_ok :: "SamplePoint list \<Rightarrow> Group list \<times> nat set \<Rightarrow> bool" where
  "groups_ok regions = (\<lambda>(groups, visited).
     finite visited \<and>
     mset (concat (map group_regions groups)) = image_mset ((!) regions) (mset_set visited) \<and>
     map group_averageScore groups =
       map (\<lambda>g. Some (sum_list (map pt_score (group_regions g)) / real (length (group_regions g))))
         groups \<and>
     [] \<notin> set (map group_regions groups))"

section \<open>AIComposer: the six composition rules\<close>

text \<open>\<open>(data[idx] + data[idx + 1] + data[idx + 2]) / 3\<close> at an integer index.\<close>

definition mean_rgb :: "8 word list \<Rightarrow> nat \<Rightarrow> jsnum" where
  "mean_rgb d idx = (data_at d idx + data_at d (idx + 1) + data_at d (idx + 2)) / Num 3"

text \<open>The same at a computed index, which may be fractional.\<close>

definition mean_rgb_num :: "8 word list \<Rightarrow> real \<Rightarrow> jsnum" where
  "mean_rgb_num d idx =
     (data_at_num d idx + data_at_num d (idx + 1) + data_at_num d (idx + 2)) / Num 3"

text \<open>\<open>edges[i] > c\<close>: false on a hole and beyond the end, where the read is \<open>undefined\<close>.\<close>

definition edge_gt :: "jsnum option list \<Rightarrow> nat \<Rightarrow> real \<Rightarrow> bool" where
  "edge_gt edges i c =
     (i < length edges \<and> (case edges ! i of None \<Rightarrow> False | Some e \<Rightarrow> Num c < e))"

definition symmetryAnalysis :: "ImageData \<Rightarrow> CropSelection option \<Rightarrow> jsnum" where
  "symmetryAnalysis imageData cropSelection =
     (let w = width imageData; h = height imageData; d = data imageData;
          (symmetryScore, totalPixels) =
            fold (\<lambda>y. fold (\<lambda>x (symmetryScore, totalPixels).
                    let leftIdx = (y * w + x) * 4;
                        rightIdx = (y * w + (w - 1 - x)) * 4;
                        leftBrightness = mean_rgb d leftIdx;
                        rightBrightness = mean_rgb d rightIdx;
                        difference = \<bar>leftBrightness - rightBrightness\<bar> / Num 255
                    in (symmetryScore + (Num 1 - difference), totalPixels + 1))
                  (filter (\<lambda>x. real x < real w / 2) [0..<w]))
              [0..<h] (Num 0, 0::nat)
      in symmetryScore / Num (real totalPixels))"

definition leadingLinesAnalysis :: "ImageData \<Rightarrow> CropSelection option \<Rightarrow> jsnum" where
  "leadingLinesAnalysis imageData cropSelection =
     (let edges = detectEdges imageData; w = width imageData; h = height imageData;
          (leadingLinePixels, totalPixels) =
            fold (\<lambda>y. fold (\<lambda>x (leadingLinePixels, totalPixels).
                    (if edge_gt edges (y * w + x) 50 then leadingLinePixels + 1
                     else leadingLinePixels,
                     totalPixels + 1))
                  [0..<w])
              [0..<h] (0::nat, 0::nat)
      in Math_min (Num 1) (Num (real leadingLinePixels) / (Num (real totalPixels) * Num 0.1)))"

text \<open>
  \<open>calculateVisualWeight(data, x, y, width, height)\<close>. The row stride is
  \<open>Math.sqrt(data.length / 4)\<close>, so the index is a real number.
\<close>

definition calculateVisualWeight :: "8 word list \<Rightarrow> real \<Rightarrow> real \<Rightarrow> real \<Rightarrow> real \<Rightarrow> jsnum" where
  "calculateVisualWeight d x y w h =
     (let startX = \<lfloor>x\<rfloor>; startY = \<lfloor>y\<rfloor>; endX = \<lfloor>x + w\<rfloor>; endY = \<lfloor>y + h\<rfloor>
      in fold (\<lambda>py. fold (\<lambda>px weight.
                 let idx = (real_of_int py * sqrt (real (length d) / 4) + real_of_int px) * 4
                 in if idx < real (length d) - 3 then weight + mean_rgb_num d idx else weight)
               [startX..endX - 1])
           [startY..endY - 1] (Num 0))"

definition balanceAnalysis :: "ImageData \<Rightarrow> CropSelection option \<Rightarrow> jsnum" where
  "balanceAnalysis imageData cropSelection =
     (let w = real (width imageData); h = real (height imageData); d = data imageData;
          leftWeight = calculateVisualWeight d 0 0 (w / 2) h;
          rightWeight = calculateVisualWeight d (w / 2) 0 (w / 2) h;
          topWeight = calculateVisualWeight d 0 0 w (h / 2);
          bottomWeight = calculateVisualWeight d 0 (h / 2) w (h / 2);
          horizontalBalance =
            Num 1 - \<bar>leftWeight - rightWeight\<bar> / Math_max leftWeight rightWeight;
          verticalBalance =
            Num 1 - \<bar>topWeight - bottomWeight\<bar> / Math_max topWeight bottomWeight
      in (horizontalBalance + verticalBalance) / Num 2)"

definition depthAnalysis :: "ImageData \<Rightarrow> CropSelection option \<Rightarrow> jsnum" where
  "depthAnalysis imageData cropSelection =
     (let d = data imageData;
          (sharpPixels, totalPixels) =
            fold (\<lambda>i (sharpPixels, totalPixels).
                    let r = data_at d i; g = data_at d (i + 1); b = data_at d (i + 2);
                        contrast = \<bar>r - g\<bar> + \<bar>g - b\<bar> + \<bar>b - r\<bar>
                    in (if Num 30 < contrast then sharpPixels + 1 else sharpPixels,
                        totalPixels + 1))
                 (for_range 0 (length d) 4) (0::nat, 0::nat)
      in Num (real sharpPixels) / Num (real totalPixels))"

text \<open>The rule table of the constructor, in its insertion order.\<close>

definition compositionRules :: "(ImageData \<Rightarrow> CropSelection option \<Rightarrow> jsnum) list" where
  "compositionRules =
     [ruleOfThirdsAnalysis, goldenRatioAnalysis, symmetryAnalysis, leadingLinesAnalysis,
      balanceAnalysis, depthAnalysis]"

definition analyzeCompositionRules :: "ImageData \<Rightarrow> CropSelection option \<Rightarrow> jsnum" where
  "analyzeCompositionRules imageData cropSelection =
     (let totalScore =
            fold (\<lambda>analyzer totalScore. totalScore + analyzer imageData cropSelection)
              compositionRules (Num 0)
      in totalScore / Num (real (length compositionRules)))"

section \<open>AIComposer: technical and artistic scores, the analysis\<close>

definition analyzeTechnicalAspects :: "ImageData \<Rightarrow> jsnum" where
  "analyzeTechnicalAspects imageData =
     (let d = data imageData;
          edges = detectEdges imageData;
          edgePixels = length (filter (\<lambda>i. edge_gt edges i 30) [0..<length edges]);
          sharpness = Num (real edgePixels) / Num (real (length edges));
          pixels = Num (real (length d)) / Num 4;
          totalBrightness =
            fold (\<lambda>i totalBrightness. totalBrightness + mean_rgb d i)
              (for_range 0 (length d) 4) (Num 0);
          exposure = totalBrightness / pixels / Num 255;
          avgBrightness = totalBrightness / pixels;
          brightnessVariance =
            fold (\<lambda>i brightnessVariance.
                    brightnessVariance + Math_pow (mean_rgb d i - avgBrightness) 2)
              (for_range 0 (length d) 4) (Num 0);
          noise = Math_sqrt (brightnessVariance / pixels) / Num 255
      in sharpness * Num 0.4 + (Num 1 - \<bar>exposure - Num 0.5\<bar> * Num 2) * Num 0.4 +
         (Num 1 - noise) * Num 0.2)"

definition analyzeColorHarmony :: "8 word list \<Rightarrow> jsnum" where
  "analyzeColorHarmony d =
     (let colors = map (\<lambda>i. (data_at d i, data_at d (i + 1), data_at d (i + 2)))
                     (for_range 0 (length d) 16);
          n = length colors;
          harmonyScore =
            fold (\<lambda>i. fold (\<lambda>j harmonyScore.
                    let (r1, g1, b1) = colors ! i;
                        (r2, g2, b2) = colors ! j;
                        distance = Math_sqrt (Math_pow (r1 - r2) 2 + Math_pow (g1 - g2) 2 +
                                              Math_pow (b1 - b2) 2)
                    in if distance < Num 50 \<or> Num 200 < distance
                       then harmonyScore + 1 else harmonyScore)
                  [i + 1..<n])
              [0..<n] (0::nat)
      in Math_min (Num 1)
           (Num (real harmonyScore) / (Num (real n) * (Num (real n) - Num 1) / Num 2)))"

definition analyzeMood :: "8 word list \<Rightarrow> jsnum" where
  "analyzeMood d =
     (let (warmColors, coolColors, totalPixels) =
            fold (\<lambda>i (warmColors, coolColors, totalPixels).
                    let r = data_at d i; g = data_at d (i + 1); b = data_at d (i + 2)
                    in if g < r \<and> b < r then (warmColors + 1, coolColors, totalPixels + 1)
                       else if r < b \<and> g < b then (warmColors, coolColors + 1, totalPixels + 1)
                       else (warmColors, coolColors, totalPixels + 1))
                 (for_range 0 (length d) 4) (0::nat, 0::nat, 0::nat);
          warmRatio = Num (real warmColors) / Num (real totalPixels);
          coolRatio = Num (real coolColors) / Num (real totalPixels)
      in Num 1 - \<bar>warmRatio - coolRatio\<bar>)"

definition analyzeVisualInterest :: "ImageData \<Rightarrow> jsnum" where
  "analyzeVisualInterest imageData =
     (let edges = detectEdges imageData; w = width imageData; h = height imageData;
          (interestingPixels, totalPixels) =
            fold (\<lambda>y. fold (\<lambda>x (interestingPixels, totalPixels).
                    (if edge_gt edges (y * w + x) 20 then interestingPixels + 1
                     else interestingPixels,
                     totalPixels + 1))
                  [0..<w])
              [0..<h] (0::nat, 0::nat)
      in Math_min (Num 1) (Num (real interestingPixels) / (Num (real totalPixels) * Num 0.3)))"

definition analyzeArtisticAspects :: "ImageData \<Rightarrow> jsnum" where
  "analyzeArtisticAspects imageData =
     (let colorHarmony = analyzeColorHarmony (data imageData);
          mood = analyzeMood (data imageData);
          visualInterest = analyzeVisualInterest imageData
      in colorHarmony * Num 0.4 + mood * Num 0.3 + visualInterest * Num 0.3)"

record Analysis =
  overallScore :: jsnum
  strengths :: "string list"
  weaknesses :: "string list"
  suggestions :: "string list"
  technicalScore :: jsnum
  artisticScore :: jsnum
  compositionScore :: jsnum

text \<open>The four blocks of \<open>generateFeedback\<close>, in their order.\<close>

definition technicalFeedback :: "Analysis \<Rightarrow> Analysis" where
  "technicalFeedback analysis =
     (if technicalScore analysis < Num 0.6
      then analysis\<lparr>weaknesses := weaknesses analysis @
                       [''Image could benefit from better technical quality''],
                     suggestions := suggestions analysis @
                       [''Consider improving focus and exposure'']\<rparr>
      else analysis\<lparr>strengths := strengths analysis @ [''Good technical quality'']\<rparr>)"

definition artisticFeedback :: "Analysis \<Rightarrow> Analysis" where
  "artisticFeedback analysis =
     (if artisticScore analysis < Num 0.6
      then analysis\<lparr>weaknesses := weaknesses analysis @ [''Color harmony could be improved''],
                     suggestions := suggestions analysis @
                       [''Try adjusting color balance or applying filters'']\<rparr>
      else analysis\<lparr>strengths := strengths analysis @ [''Strong artistic appeal'']\<rparr>)"

definition compositionFeedback :: "Analysis \<Rightarrow> Analysis" where
  "compositionFeedback analysis =
     (if compositionScore analysis < Num 0.6
      then analysis\<lparr>weaknesses := weaknesses analysis @ [''Composition could be enhanced''],
                     suggestions := suggestions analysis @
                       [''Consider using rule of thirds or golden ratio'']\<rparr>
      else analysis\<lparr>strengths := strengths analysis @ [''Excellent composition'']\<rparr>)"

definition overallFeedback :: "Analysis \<Rightarrow> Analysis" where
  "overallFeedback analysis =
     (if Num 0.8 \<le> overallScore analysis
      then analysis\<lparr>suggestions := suggestions analysis @
                       [''This is a well-composed image!'']\<rparr>
      else if Num 0.6 \<le> overallScore analysis
      then analysis\<lparr>suggestions := suggestions analysis @
                       [''Good image with room for improvement'']\<rparr>
      else analysis\<lparr>suggestions := suggestions analysis @
                       [''Consider recomposing or editing the image'']\<rparr>)"

definition generateFeedback :: "Analysis \<Rightarrow> Analysis" where
  "generateFeedback analysis =
     overallFeedback (compositionFeedback (artisticFeedback (technicalFeedback analysis)))"

definition analyzeComposition :: "ImageData \<Rightarrow> CropSelection option \<Rightarrow> Analysis" where
  "analyzeComposition imageData cropSelection =
     (let technical = analyzeTechnicalAspects imageData;
          artistic = analyzeArtisticAspects imageData;
          composition = analyzeCompositionRules imageData cropSelection
      in generateFeedback
           \<lparr>overallScore = technical * Num 0.3 + artistic * Num 0.3 + composition * Num 0.4,
            strengths = [], weaknesses = [], suggestions = [],
            technicalScore = technical, artisticScore = artistic,
            compositionScore = composition\<rparr>)"

section \<open>AdvancedImageAnalysis: balance\<close>

text \<open>The two pixel loops over one quadrant \<open>{x, y, w, h}\<close>: its summed brightness.\<close>

definition quadrantWeight :: "ImageData \<Rightarrow> real \<Rightarrow> real \<Rightarrow> real \<Rightarrow> real \<Rightarrow> jsnum" where
  "quadrantWeight imageData qx qy qw qh =
     fold (\<lambda>y. fold (\<lambda>x weight.
             let idx = (y * real (width imageData) + x) * 4;
                 brightness = mean_rgb_num (data imageData) idx
             in weight + brightness)
           (for_range_num qx (qx + qw) 1))
       (for_range_num qy (qy + qh) 1) (Num 0)"

definition calculateBalance :: "ImageData \<Rightarrow> jsnum" where
  "calculateBalance imageData =
     (let w = real (width imageData); h = real (height imageData);
          quadrants = [(0, 0, w / 2, h / 2), (w / 2, 0, w / 2, h / 2),
                       (0, h / 2, w / 2, h / 2), (w / 2, h / 2, w / 2, h / 2)];
          weights = map (\<lambda>(qx, qy, qw, qh). quadrantWeight imageData qx qy qw qh) quadrants;
          totalWeight = fold (\<lambda>weight sum. sum + weight) weights (Num 0);
          averageWeight = totalWeight / Num 4;
          balanceScore =
            fold (\<lambda>weight balanceScore.
                    let normalizedWeight = weight / totalWeight
                    in balanceScore + (Num 1 - \<bar>normalizedWeight - Num 0.25\<bar>))
              weights (Num 0)
      in balanceScore / Num 4)"

text \<open>
  The balance score in the words of the specification: the luma of a pixel is the mean
  of its three colour channels, a quadrant's weight is the sum of the lumas of its
  pixels, and the score is the mean over the four quadrants of
  \<open>1 - |quadrantWeight / totalWeight - 0.25|\<close>.
\<close>

definition luma :: "ImageData \<Rightarrow> nat \<Rightarrow> nat \<Rightarrow> real" where
  "luma imageData x y =
     (let i = (y * width imageData + x) * 4; d = data imageData
      in (real (unat (d ! i)) + real (unat (d ! (i + 1))) + real (unat (d ! (i + 2)))) / 3)"

text \<open>The summed luma of the pixels with \<open>x0 \<le> x < x1\<close> and \<open>y0 \<le> y < y1\<close>.\<close>

definition regionWeight :: "ImageData \<Rightarrow> nat \<Rightarrow> nat \<Rightarrow> nat \<Rightarrow> nat \<Rightarrow> real" where
  "regionWeight imageData x0 x1 y0 y1 =
     sum_list (map (\<lambda>y. sum_list (map (\<lambda>x. luma imageData x y) [x0..<x1])) [y0..<y1])"

text \<open>The quadrant of half the width and half the height whose first pixel is \<open>(x0, y0)\<close>.\<close>

definition spec_quadrantWeight :: "ImageData \<Rightarrow> nat \<Rightarrow> nat \<Rightarrow> real" where
  "spec_quadrantWeight imageData x0 y0 =
     regionWeight imageData x0 (x0 + width imageData div 2) y0 (y0 + height imageData div 2)"

definition spec_quadrantWeights :: "ImageData \<Rightarrow> real list" where
  "spec_quadrantWeights imageData =
     [spec_quadrantWeight imageData 0 0,
      spec_quadrantWeight imageData (width imageData div 2) 0,
      spec_quadrantWeight imageData 0 (height imageData div 2),
      spec_quadrantWeight imageData (width imageData div 2) (height imageData div 2)]"

definition spec_balance :: "ImageData \<Rightarrow> real" where
  "spec_balance imageData =
     (let totalWeight = sum_list (spec_quadrantWeights imageData)
      in sum_list (map (\<lambda>quadrantWeight. 1 - \<bar>quadrantWeight / totalWeight - 0.25\<bar>)
                    (spec_quadrantWeights imageData)) / 4)"


text \<open>
  What \<open>balanceAnalysis\<close> computes on a square buffer: the mean of the horizontal and the
  vertical balance of the weights of the two halves.
\<close>

definition half_balance :: "ImageData \<Rightarrow> jsnum" where
  "half_balance imageData =
     (let n = width imageData;
          leftWeight = Num (regionWeight imageData 0 (n div 2) 0 n);
          rightWeight = Num (regionWeight imageData (n div 2) n 0 n);
          topWeight = Num (regionWeight imageData 0 n 0 (n div 2));
          bottomWeight = Num (regionWeight imageData 0 n (n div 2) n)
      in ((Num 1 - \<bar>leftWeight - rightWeight\<bar> / Math_max leftWeight rightWeight) +
          (Num 1 - \<bar>topWeight - bottomWeight\<bar> / Math_max topWeight bottomWeight)) / Num 2)"

section \<open>AdvancedImageAnalysis: leading lines\<close>

record Line =
  line_angle :: nat
  line_distance :: real
  line_votes :: nat

record LeadingLines =
  lead_lines :: "Line list"
  lead_score :: jsnum

text \<open>The two pixel loops of \<open>detectLeadingLines\<close>: the votes of one (angle, distance).\<close>

definition houghVotes :: "jsnum option list \<Rightarrow> nat \<Rightarrow> nat \<Rightarrow> nat \<Rightarrow> real \<Rightarrow> nat" where
  "houghVotes edges w h angle distance =
     fold (\<lambda>y. fold (\<lambda>x votes.
             if edge_gt edges (y * w + x) 20
             then (let lineDistance = real x * cos (real angle * pi / 180) +
                                      real y * sin (real angle * pi / 180)
                   in if \<bar>lineDistance - distance\<bar> < 5 then votes + 1 else votes)
             else votes)
           (for_range 0 w 2))
       (for_range 0 h 2) 0"

text \<open>The candidate lines in the order in which the loops push them.\<close>

definition houghLines :: "ImageData \<Rightarrow> Line list" where
  "houghLines imageData =
     (let edges = detectEdges imageData;
          w = width imageData; h = height imageData;
          angles = 180;
          distances = sqrt (real (w * w + h * h))
      in fold (\<lambda>angle. fold (\<lambda>distance lines.
                 let votes = houghVotes edges w h angle distance
                 in if 50 < votes
                    then lines @ [\<lparr>line_angle = angle, line_distance = distance,
                                   line_votes = votes\<rparr>]
                    else lines)
               (for_range_num 0 distances 10))
           (for_range 0 angles 5) [])"

text \<open>
  \<open>lines.sort(...)\<close> sorts the array in place before \<open>lines[0]\<close> is read for the score.
\<close>

definition detectLeadingLines :: "ImageData \<Rightarrow> LeadingLines" where
  "detectLeadingLines imageData =
     (let lines = Array_sort (\<lambda>a b. Num (real (line_votes b)) - Num (real (line_votes a)))
                    (houghLines imageData)
      in \<lparr>lead_lines = take 5 lines,
          lead_score = (if 0 < length lines
                        then Math_min (Num (real (line_votes (lines ! 0))) / Num 100) (Num 1)
                        else Num 0)\<rparr>)"

text \<open>
  The leading-lines score in the words of the specification: for each angle in [0, 180)
  stepped by 5 and each distance stepped by 10 up to the diagonal, the votes are the
  edge pixels with magnitude above 20, sampled at stride 2 in both axes, that lie within
  5 units of the line; lines with more than 50 votes are kept; the score is
  \<open>min(topVotes / 100, 1)\<close>, or 0 when no line is kept.
\<close>

definition spec_votes :: "ImageData \<Rightarrow> nat \<Rightarrow> real \<Rightarrow> nat" where
  "spec_votes imageData angle distance =
     length (filter (\<lambda>(y, x).
                edge_gt (detectEdges imageData) (y * width imageData + x) 20 \<and>
                \<bar>real x * cos (real angle * pi / 180) + real y * sin (real angle * pi / 180)
                   - distance\<bar> < 5)
             (List.product (for_range 0 (height imageData) 2) (for_range 0 (width imageData) 2)))"

definition spec_lines :: "ImageData \<Rightarrow> Line list" where
  "spec_lines imageData =
     filter (\<lambda>l. 50 < line_votes l)
       (map (\<lambda>(angle, distance).
               \<lparr>line_angle = angle, line_distance = distance,
                line_votes = spec_votes imageData angle distance\<rparr>)
          (List.product (for_range 0 180 5)
             (for_range_num 0
                (sqrt (real (width imageData * width imageData +
                             height imageData * height imageData))) 10)))"

definition spec_leading_score :: "ImageData \<Rightarrow> real" where
  "spec_leading_score imageData =
     (if spec_lines imageData = [] then 0
      else min (real (Max (set (map line_votes (spec_lines imageData)))) / 100) 1)"

text \<open>What \<open>leadingLinesAnalysis\<close> counts: the pixels whose edge magnitude is above 50.\<close>

definition strong_edge_pixels :: "ImageData \<Rightarrow> nat" where
  "strong_edge_pixels imageData =
     length (filter (\<lambda>(y, x). edge_gt (detectEdges imageData) (y * width imageData + x) 50)
               (List.product [0..<height imageData] [0..<width imageData]))"

section \<open>Example buffers\<close>

text \<open>Eleven pixels of the colour (200, 100, 50), opaque.\<close>

definition uniform_image :: ImageData where
  "uniform_image = \<lparr>width = 11, height = 1,
     data = [200, 100, 50, 255, 200, 100, 50, 255, 200, 100, 50, 255, 200, 100, 50, 255,
             200, 100, 50, 255, 200, 100, 50, 255, 200, 100, 50, 255, 200, 100, 50, 255,
             200, 100, 50, 255, 200, 100, 50, 255, 200, 100, 50, 255]\<rparr>"

text \<open>One black pixel, and a 3 by 3 buffer of one grey level.\<close>

definition one_pixel :: ImageData where
  "one_pixel = \<lparr>width = 1, height = 1, data = [0, 0, 0, 255]\<rparr>"

definition flat3 :: ImageData where
  "flat3 = \<lparr>width = 3, height = 3,
     data = [90, 90, 90, 255, 90, 90, 90, 255, 90, 90, 90, 255,
             90, 90, 90, 255, 90, 90, 90, 255, 90, 90, 90, 255,
             90, 90, 90, 255, 90, 90, 90, 255, 90, 90, 90, 255]\<rparr>"

text \<open>A 2 by 2 buffer of opaque black pixels.\<close>

definition black2 :: ImageData where
  "black2 = \<lparr>width = 2, height = 2,
     data = [0, 0, 0, 255, 0, 0, 0, 255, 0, 0, 0, 255, 0, 0, 0, 255]\<rparr>"

text \<open>Left half white, right half black.\<close>

definition half_white :: ImageData where
  "half_white = \<lparr>width = 2, height = 2,
     data = [255, 255, 255, 255, 0, 0, 0, 255, 255, 255, 255, 255, 0, 0, 0, 255]\<rparr>"

text \<open>A 3 by 3 buffer with a black left column and white pixels elsewhere.\<close>

definition edge3 :: ImageData where
  "edge3 = \<lparr>width = 3, height = 3,
     data = [0, 0, 0, 255, 255, 255, 255, 255, 255, 255, 255, 255,
             0, 0, 0, 255, 255, 255, 255, 255, 255, 255, 255, 255,
             0, 0, 0, 255, 255, 255, 255, 255, 255, 255, 255, 255]\<rparr>"

section \<open>Theorems\<close>

text \<open>
  C8: when no crop rectangle is supplied, the rule-of-thirds sub-score and the
  golden-ratio sub-score both evaluate to the neutral value 0.5, for every buffer.
\<close>

theorem no_crop_neutral_scores:
  "ruleOfThirdsAnalysis imageData None = Num 0.5 \<and>
   goldenRatioAnalysis imageData None = Num 0.5"
  by (simp add: ruleOfThirdsAnalysis_def goldenRatioAnalysis_def)

text \<open>
  C9: for width = 144 and height = 144 the grid has one point per index 1..11 of the
  sequence; its x-fractions (and y-fractions) are \<open>fib[i]/144\<close> for these indices, and
  the fractions that occur are exactly the values \<open>fib[i]/144\<close> of the whole sequence
  (index 0 repeats the value of index 1).
\<close>

theorem fibonacci_grid_144:
  "map (\<lambda>p. point_x p / 144) (generateFibonacciGrid 144 144) = map (\<lambda>i. fib ! i / 144) [1..<12] \<and>
   map (\<lambda>p. point_y p / 144) (generateFibonacciGrid 144 144) = map (\<lambda>i. fib ! i / 144) [1..<12] \<and>
   set (map (\<lambda>p. point_x p / 144) (generateFibonacciGrid 144 144)) = set (map (\<lambda>f. f / 144) fib) \<and>
   set (map (\<lambda>p. point_y p / 144) (generateFibonacciGrid 144 144)) = set (map (\<lambda>f. f / 144) fib)"
  by (simp add: generateFibonacciGrid_def fib_def upt_rec)


subsection \<open>Dominant colours\<close>

lemma for_range_set: "i \<in> set (for_range a stop step) \<Longrightarrow> i < stop \<and> (\<exists>k. i = a + k * step)"
proof (induction a stop step rule: for_range.induct)
  case (1 a stop step)
  show ?case
  proof (cases "a < stop \<and> 0 < step")
    case True
    with "1.prems" have "i = a \<or> i \<in> set (for_range (a + step) stop step)"
      by (subst (asm) for_range.simps) simp
    then show ?thesis
    proof
      assume "i = a" with True show ?thesis by (auto intro: exI[of _ 0])
    next
      assume "i \<in> set (for_range (a + step) stop step)"
      with "1.IH" True obtain k where "i < stop" "i = a + step + k * step" by blast
      then show ?thesis by (auto intro: exI[of _ "Suc k"])
    qed
  next
    case False
    with "1.prems" show ?thesis by (subst (asm) for_range.simps) simp
  qed
qed

lemma for_range_nonempty: "a < stop \<Longrightarrow> 0 < step \<Longrightarrow> for_range a stop step \<noteq> []"
  by (subst for_range.simps) simp

lemma fold_increment_same:
  "fold (\<lambda>i. increment k) is [(k, c)] = [(k, c + length is)]"
  by (induction "is" arbitrary: c) auto

lemma fold_increment_empty:
  "fold (\<lambda>i. increment k) is [] = (if is = [] then [] else [(k, length is)])"
  by (cases "is") (auto simp: fold_increment_same)

lemma fold_cong_set: "(\<And>x. x \<in> set xs \<Longrightarrow> f x = g x) \<Longrightarrow> fold f xs s = fold g xs s"
  by (induction xs arbitrary: s) auto

text \<open>
  C7: for every valid buffer in which every pixel has the colour (200, 100, 50), the
  histogram built by \<open>getDominantColors\<close> has the single bucket (192, 96, 32), whose
  count is the number of sampled pixels, and the function returns exactly that colour.
\<close>

theorem dominant_single_color:
  assumes v: "valid_buffer imageData"
    and px: "\<forall>p < width imageData * height imageData.
            data imageData ! (4 * p) = 200 \<and> data imageData ! (4 * p + 1) = 100 \<and>
            data imageData ! (4 * p + 2) = 50"
  shows "colorCounts (data imageData) =
           [((Num 192, Num 96, Num 32), length (for_range 0 (length (data imageData)) 40))] \<and>
         getDominantColors imageData 5 = [\<lparr>color_r = Num 192, color_g = Num 96, color_b = Num 32\<rparr>]"
proof -
  let ?d = "data imageData"
  let ?key = "(Num 192, Num 96, Num 32)"
  let ?is = "for_range 0 (length ?d) 40"
  from v have len: "length ?d = width imageData * height imageData * 4" and pos: "0 < length ?d"
    by (auto simp: valid_buffer_def)
  have step: "(let r = data_at ?d i; g = data_at ?d (i + 1); b = data_at ?d (i + 2);
                 quantizedR = Math_floor (r / Num 32) * Num 32;
                 quantizedG = Math_floor (g / Num 32) * Num 32;
                 quantizedB = Math_floor (b / Num 32) * Num 32
             in increment (quantizedR, quantizedG, quantizedB)) = increment ?key"
    if "i \<in> set ?is" for i
  proof -
    define n where "n = width imageData * height imageData"
    from len have len': "length ?d = n * 4" by (simp add: n_def)
    from for_range_set[OF that] obtain k where i: "i < length ?d" "i = k * 40" by auto
    with len' have "i = 4 * (10 * k)" "10 * k < n" "i + 1 < length ?d" "i + 2 < length ?d"
      by arith+
    with px have "?d ! i = 200" "?d ! (i + 1) = 100" "?d ! (i + 2) = 50"
      "i + 1 < length ?d" "i + 2 < length ?d"
      by (auto simp: n_def)
    then show ?thesis using i(1) by (simp add: data_at_def Let_def)
  qed
  have cc: "colorCounts ?d = fold (\<lambda>i. increment ?key) ?is []"
    unfolding colorCounts_def by (rule fold_cong_set) (use step in \<open>simp add: Let_def\<close>)
  have ne: "?is \<noteq> []" using pos by (simp add: for_range_nonempty)
  have c1: "colorCounts ?d = [(?key, length ?is)]"
    using cc ne by (simp add: fold_increment_empty)
  then show ?thesis
    by (simp add: getDominantColors_def Array_sort_def)
qed


theorem dominant_single_color_witness:
  "valid_buffer uniform_image \<and>
   colorCounts (data uniform_image) = [((Num 192, Num 96, Num 32), 2)] \<and>
   getDominantColors uniform_image 5 = [\<lparr>color_r = Num 192, color_g = Num 96, color_b = Num 32\<rparr>]"
proof -
  have v: "valid_buffer uniform_image"
    by (simp add: valid_buffer_def uniform_image_def)
  have px: "\<forall>p < width uniform_image * height uniform_image.
            data uniform_image ! (4 * p) = 200 \<and> data uniform_image ! (4 * p + 1) = 100 \<and>
            data uniform_image ! (4 * p + 2) = 50"
    by (simp add: uniform_image_def eval_nat_numeral All_less_Suc)
  have n: "length (for_range 0 (length (data uniform_image)) 40) = 2"
    by (simp add: uniform_image_def for_range.simps)
  from dominant_single_color [OF v px] v n show ?thesis by simp
qed

lemma findRegionsOfInterest_returns:
  assumes "valid_buffer imageData"
  shows "\<exists>rois. findRegionsOfInterest imageData = Some rois"
  using assms by (auto simp: findRegionsOfInterest_def valid_buffer_def Let_def)

subsection \<open>Crop suggestions\<close>

lemma mset_insert_sorted: "mset (insert_sorted c a xs) = add_mset a (mset xs)"
  by (induction xs) auto

lemma mset_Array_sort: "mset (Array_sort c xs) = mset xs"
  unfolding Array_sort_def by (induction xs) (auto simp: mset_insert_sorted)

lemma set_Array_sort: "set (Array_sort c xs) = set xs"
  using mset_Array_sort [of c xs] by (metis set_mset_mset)

lemma minus_self_not_pos: "\<not> Num 0 < (x::jsnum) - x"
  by (cases x) (auto simp: minus_jsnum_def)

lemma filter_insert_sorted:
  "filter (\<lambda>s. key s = k) (insert_sorted (\<lambda>a b. key b - key a) a xs) =
     (if key a = k then a # filter (\<lambda>s. key s = k) xs else filter (\<lambda>s. key s = k) xs)"
proof (induction xs)
  case Nil
  then show ?case by simp
next
  case (Cons b bs)
  have "key b \<noteq> key a" if "Num 0 < key b - key a"
    using that minus_self_not_pos [of "key a"] by auto
  with Cons show ?case by auto
qed

lemma filter_Array_sort:
  "filter (\<lambda>s. key s = k) (Array_sort (\<lambda>a b. key b - key a) xs) = filter (\<lambda>s. key s = k) xs"
  unfolding Array_sort_def by (induction xs) (auto simp: filter_insert_sorted)

lemma Num_diff_pos: "Num 0 < Num b - Num a \<longleftrightarrow> a < b"
  by (simp add: minus_jsnum_def)

lemma Num_le: "Num a \<le> Num b \<longleftrightarrow> a \<le> b"
  by (auto simp: less_eq_jsnum_def)

lemma sorted_insert_sorted:
  assumes "\<forall>x \<in> set (a # xs). \<exists>r. key x = Num r"
    and "sorted_wrt (\<lambda>a b. key b \<le> key a) xs"
  shows "sorted_wrt (\<lambda>a b. key b \<le> key a) (insert_sorted (\<lambda>a b. key b - key a) a xs)"
  using assms
proof (induction xs)
  case Nil
  then show ?case by simp
next
  case (Cons b bs)
  from Cons.prems obtain ra rb where k: "key a = Num ra" "key b = Num rb" by auto
  show ?case
  proof (cases "Num 0 < key b - key a")
    case True
    then have lt: "ra < rb" using k by (simp add: Num_diff_pos)
    have ih: "sorted_wrt (\<lambda>a b. key b \<le> key a) (insert_sorted (\<lambda>a b. key b - key a) a bs)"
      using Cons by simp
    have "\<forall>y \<in> set (insert_sorted (\<lambda>a b. key b - key a) a bs). key y \<le> key b"
    proof
      fix y assume "y \<in> set (insert_sorted (\<lambda>a b. key b - key a) a bs)"
      then have "y \<in># add_mset a (mset bs)"
        by (metis mset_insert_sorted set_mset_mset)
      then have "y = a \<or> y \<in> set bs" by auto
      then show "key y \<le> key b"
        using Cons.prems(2) k lt by (auto simp: Num_le)
    qed
    with ih True show ?thesis by simp
  next
    case False
    then have le: "rb \<le> ra" using k by (simp add: Num_diff_pos)
    have "\<forall>y \<in> set bs. key y \<le> key a"
    proof
      fix y assume y: "y \<in> set bs"
      with Cons.prems have "\<exists>ry. key y = Num ry" and "key y \<le> key b" by auto
      then obtain ry where "key y = Num ry" "key y \<le> key b" by blast
      with k le show "key y \<le> key a" by (simp add: Num_le)
    qed
    with False Cons.prems(2) k le show ?thesis by (simp add: Num_le)
  qed
qed

lemma sorted_Array_sort:
  assumes "\<forall>x \<in> set xs. \<exists>r. key x = Num r"
  shows "sorted_wrt (\<lambda>a b. key b \<le> key a) (Array_sort (\<lambda>a b. key b - key a) xs)"
  using assms
proof (induction xs)
  case Nil
  then show ?case by (simp add: Array_sort_def)
next
  case (Cons a xs)
  have "\<forall>x \<in> set (a # foldr (insert_sorted (\<lambda>a b. key b - key a)) xs []). \<exists>r. key x = Num r"
    using Cons.prems set_Array_sort [of "\<lambda>a b. key b - key a" xs]
    by (simp add: Array_sort_def)
  with Cons show ?case
    by (simp add: Array_sort_def sorted_insert_sorted)
qed

lemma pushed_scores:
  assumes "pushedSuggestions imageData = Some pushed"
  shows "\<forall>s \<in> set pushed. \<exists>r. sug_score s = Num r"
  using assms
  by (auto simp: pushedSuggestions_def Let_def split: option.splits if_splits)

lemma pushed_distinct:
  assumes "pushedSuggestions imageData = Some pushed"
  shows "distinct (map sug_score pushed)"
  using assms
  by (auto simp: pushedSuggestions_def Let_def split: option.splits if_splits)

lemma pushed_Some:
  assumes "valid_buffer imageData"
  shows "\<exists>pushed. pushedSuggestions imageData = Some pushed"
  using findRegionsOfInterest_returns [OF assms] by (auto simp: pushedSuggestions_def Let_def)

text \<open>
  C5: for every valid buffer \<open>generateCropSuggestions\<close> returns; its result is a
  rearrangement of the pushed suggestions, sorted in descending order of score, and for
  every score the suggestions with that score keep the order in which they were pushed
  (the pushed scores are pairwise different, so no tie occurs).
\<close>

theorem crop_suggestions_sorted_stable:
  assumes "valid_buffer imageData"
  shows "\<exists>pushed result.
           pushedSuggestions imageData = Some pushed \<and>
           generateCropSuggestions imageData w h = Some result \<and>
           mset result = mset pushed \<and>
           sorted_wrt (\<lambda>a b. sug_score b \<le> sug_score a) result \<and>
           (\<forall>k. filter (\<lambda>s. sug_score s = k) result = filter (\<lambda>s. sug_score s = k) pushed) \<and>
           distinct (map sug_score pushed)"
proof -
  from pushed_Some [OF assms] obtain pushed where p: "pushedSuggestions imageData = Some pushed"
    by blast
  let ?result = "Array_sort (\<lambda>a b. sug_score b - sug_score a) pushed"
  have "generateCropSuggestions imageData w h = Some ?result"
    by (simp add: generateCropSuggestions_def p)
  moreover have "mset ?result = mset pushed"
    by (rule mset_Array_sort)
  moreover have "sorted_wrt (\<lambda>a b. sug_score b \<le> sug_score a) ?result"
    by (rule sorted_Array_sort) (rule pushed_scores [OF p])
  moreover have "\<forall>k. filter (\<lambda>s. sug_score s = k) ?result = filter (\<lambda>s. sug_score s = k) pushed"
    by (simp add: filter_Array_sort)
  moreover have "distinct (map sug_score pushed)"
    by (rule pushed_distinct [OF p])
  ultimately show ?thesis using p by blast
qed

theorem crop_suggestions_sorted_stable_witness:
  "valid_buffer uniform_image \<and>
   (\<exists>pushed result.
      pushedSuggestions uniform_image = Some pushed \<and>
      generateCropSuggestions uniform_image 11 1 = Some result \<and>
      mset result = mset pushed \<and>
      sorted_wrt (\<lambda>a b. sug_score b \<le> sug_score a) result \<and>
      (\<forall>k. filter (\<lambda>s. sug_score s = k) result = filter (\<lambda>s. sug_score s = k) pushed) \<and>
      distinct (map sug_score pushed))"
proof -
  have v: "valid_buffer uniform_image"
    by (simp add: valid_buffer_def uniform_image_def)
  from v crop_suggestions_sorted_stable [OF v, of 11 1] show ?thesis
    by blast
qed

text \<open>
  C6: for every valid buffer the result of \<open>generateCropSuggestions\<close> contains the
  golden-ratio suggestion with score 90, whose crop has width 0.6 and height 0.6 / 1.618
  (within 0.0001 of 0.3708), and the balanced-composition suggestion with score 75.
\<close>

theorem crop_suggestions_fixed:
  assumes "valid_buffer imageData"
  shows "\<exists>result.
           generateCropSuggestions imageData w h = Some result \<and>
           \<lparr>sug_name = ''Golden Ratio'', sug_description = ''Crop following the golden ratio'',
            sug_crop = \<lparr>region_x = Num 0.2, region_y = Num 0.2, region_width = Num 0.6,
                        region_height = Num (0.6 / 1.618), region_score = None\<rparr>,
            sug_score = Num 90\<rparr> \<in> set result \<and>
           \<lparr>sug_name = ''Balanced Composition'',
            sug_description = ''Centered crop with balanced elements'',
            sug_crop = \<lparr>region_x = Num 0.2, region_y = Num 0.2, region_width = Num 0.6,
                        region_height = Num 0.6, region_score = None\<rparr>,
            sug_score = Num 75\<rparr> \<in> set result \<and>
           \<bar>0.6 / 1.618 - 0.3708 :: real\<bar> < 0.0001"
proof -
  from findRegionsOfInterest_returns [OF assms] obtain rois where r: "findRegionsOfInterest imageData = Some rois"
    by blast
  show ?thesis
    by (simp add: generateCropSuggestions_def pushedSuggestions_def r Let_def set_Array_sort)
qed

theorem crop_suggestions_fixed_witness:
  "valid_buffer uniform_image \<and>
   (\<exists>result.
      generateCropSuggestions uniform_image 11 1 = Some result \<and>
      \<lparr>sug_name = ''Golden Ratio'', sug_description = ''Crop following the golden ratio'',
       sug_crop = \<lparr>region_x = Num 0.2, region_y = Num 0.2, region_width = Num 0.6,
                   region_height = Num (0.6 / 1.618), region_score = None\<rparr>,
       sug_score = Num 90\<rparr> \<in> set result \<and>
      \<lparr>sug_name = ''Balanced Composition'',
       sug_description = ''Centered crop with balanced elements'',
       sug_crop = \<lparr>region_x = Num 0.2, region_y = Num 0.2, region_width = Num 0.6,
                   region_height = Num 0.6, region_score = None\<rparr>,
       sug_score = Num 75\<rparr> \<in> set result)"
proof -
  have v: "valid_buffer uniform_image"
    by (simp add: valid_buffer_def uniform_image_def)
  from v crop_suggestions_fixed [OF v, of 11 1] show ?thesis
    by blast
qed

subsection \<open>Grouping of sample points\<close>

lemma absorb_ok:
  assumes "group_ok regions others st"
  shows "group_ok regions others (absorb regions maxDistance region j st)"
proof (cases st)
  case (Pair group visited)
  with assms show ?thesis
    by (auto simp: group_ok_def absorb_def Let_def)
qed

lemma fold_absorb_ok:
  assumes "group_ok regions others st"
  shows "group_ok regions others (fold (absorb regions maxDistance region) js st)"
  using assms by (induction js arbitrary: st) (simp_all add: absorb_ok)

lemma seed_ok:
  assumes "groups_ok regions st"
  shows "groups_ok regions (seed regions maxDistance i st)"
proof (cases st)
  case (Pair groups visited)
  show ?thesis
  proof (cases "i \<in> visited")
    case True
    with assms Pair show ?thesis by (simp add: seed_def)
  next
    case False
    let ?region = "regions ! i"
    let ?group0 = "\<lparr>group_regions = [?region],
                      group_center = (pt_x ?region, pt_y ?region),
                      group_bounds = \<lparr>minX = pt_x ?region, minY = pt_y ?region,
                                       maxX = pt_x ?region, maxY = pt_y ?region\<rparr>,
                      group_totalScore = pt_score ?region,
                      group_averageScore = None\<rparr>"
    let ?others = "mset (concat (map group_regions groups))"
    obtain group visited' where
      f: "fold (absorb regions maxDistance ?region) [0..<length regions]
            (?group0, insert i visited) = (group, visited')"
      by (cases "fold (absorb regions maxDistance ?region) [0..<length regions]
            (?group0, insert i visited)") blast
    from assms Pair False have "group_ok regions ?others (?group0, insert i visited)"
      by (simp add: groups_ok_def group_ok_def)
    then have "group_ok regions ?others (group, visited')"
      using fold_absorb_ok [of regions ?others "(?group0, insert i visited)" maxDistance ?region
          "[0..<length regions]"] f
      by simp
    with assms Pair False f show ?thesis
      by (auto simp: seed_def groups_ok_def group_ok_def Let_def)
  qed
qed

lemma fold_seed_ok:
  assumes "groups_ok regions st"
  shows "groups_ok regions (fold (seed regions maxDistance) is st)"
  using assms by (induction "is" arbitrary: st) (simp_all add: seed_ok)

text \<open>An index is visited once its turn in the outer loop is over, and stays so.\<close>

lemma absorb_visited_mono: "snd st \<subseteq> snd (absorb regions maxDistance region j st)"
  by (cases st) (auto simp: absorb_def Let_def)

lemma fold_absorb_visited_mono:
  "snd st \<subseteq> snd (fold (absorb regions maxDistance region) js st)"
proof (induction js arbitrary: st)
  case Nil
  then show ?case by simp
next
  case (Cons j js)
  have "snd st \<subseteq> snd (absorb regions maxDistance region j st)"
    by (rule absorb_visited_mono)
  also have "\<dots> \<subseteq> snd (fold (absorb regions maxDistance region) js
                         (absorb regions maxDistance region j st))"
    by (rule Cons.IH)
  finally show ?case by simp
qed

lemma seed_visited: "insert i (snd st) \<subseteq> snd (seed regions maxDistance i st)"
proof (cases st)
  case (Pair groups visited)
  show ?thesis
  proof (cases "i \<in> visited")
    case True
    with Pair show ?thesis by (auto simp: seed_def)
  next
    case False
    let ?region = "regions ! i"
    let ?st0 = "(\<lparr>group_regions = [?region],
                      group_center = (pt_x ?region, pt_y ?region),
                      group_bounds = \<lparr>minX = pt_x ?region, minY = pt_y ?region,
                                       maxX = pt_x ?region, maxY = pt_y ?region\<rparr>,
                      group_totalScore = pt_score ?region,
                      group_averageScore = None\<rparr>, insert i visited)"
    have "insert i visited \<subseteq> snd (fold (absorb regions maxDistance ?region) [0..<length regions] ?st0)"
      using fold_absorb_visited_mono [of ?st0 regions maxDistance ?region "[0..<length regions]"]
      by simp
    with Pair False show ?thesis
      by (auto simp: seed_def Let_def split: prod.splits)
  qed
qed

lemma fold_seed_visited:
  "snd st \<union> set is \<subseteq> snd (fold (seed regions maxDistance) is st)"
proof (induction "is" arbitrary: st)
  case Nil
  then show ?case by simp
next
  case (Cons i "is")
  have "insert i (snd st) \<union> set is \<subseteq> snd (seed regions maxDistance i st) \<union> set is"
    using seed_visited [of i st regions maxDistance] by auto
  also have "\<dots> \<subseteq> snd (fold (seed regions maxDistance) is (seed regions maxDistance i st))"
    by (rule Cons.IH)
  finally show ?case by simp
qed

lemma absorb_visited_bound:
  "snd st \<subseteq> {0..<n} \<Longrightarrow> j < n \<Longrightarrow> snd (absorb regions maxDistance region j st) \<subseteq> {0..<n}"
  by (cases st) (auto simp: absorb_def Let_def)

lemma fold_absorb_visited_bound:
  "snd st \<subseteq> {0..<n} \<Longrightarrow> \<forall>j \<in> set js. j < n \<Longrightarrow>
   snd (fold (absorb regions maxDistance region) js st) \<subseteq> {0..<n}"
  by (induction js arbitrary: st) (simp_all add: absorb_visited_bound)

lemma seed_visited_bound:
  assumes "snd st \<subseteq> {0..<length regions}" "i < length regions"
  shows "snd (seed regions maxDistance i st) \<subseteq> {0..<length regions}"
proof (cases st)
  case (Pair groups visited)
  show ?thesis
  proof (cases "i \<in> visited")
    case True
    with Pair assms show ?thesis by (auto simp: seed_def)
  next
    case False
    let ?region = "regions ! i"
    let ?st0 = "(\<lparr>group_regions = [?region],
                      group_center = (pt_x ?region, pt_y ?region),
                      group_bounds = \<lparr>minX = pt_x ?region, minY = pt_y ?region,
                                       maxX = pt_x ?region, maxY = pt_y ?region\<rparr>,
                      group_totalScore = pt_score ?region,
                      group_averageScore = None\<rparr>, insert i visited)"
    have "snd (fold (absorb regions maxDistance ?region) [0..<length regions] ?st0)
            \<subseteq> {0..<length regions}"
      using assms Pair by (intro fold_absorb_visited_bound) auto
    with Pair False show ?thesis
      by (auto simp: seed_def Let_def split: prod.splits)
  qed
qed

lemma fold_seed_visited_bound:
  "snd st \<subseteq> {0..<length regions} \<Longrightarrow> \<forall>i \<in> set is. i < length regions \<Longrightarrow>
   snd (fold (seed regions maxDistance) is st) \<subseteq> {0..<length regions}"
  by (induction "is" arbitrary: st) (simp_all add: seed_visited_bound)

lemma image_mset_nth_upt: "image_mset ((!) xs) (mset_set {0..<length xs}) = mset xs"
proof -
  have "mset xs = mset (map ((!) xs) [0..<length xs])"
    by (simp add: map_nth)
  also have "\<dots> = image_mset ((!) xs) (mset [0..<length xs])"
    by simp
  also have "mset [0..<length xs] = mset_set {0..<length xs}"
    by (simp add: mset_upt)
  finally show ?thesis by simp
qed

text \<open>
  C10: for every list of sample points and every threshold, the member lists of the
  groups returned by \<open>groupRegions\<close> together hold every input point exactly once
  (as a multiset, so a point that occurs twice in the input is held twice), no group is
  empty, and every group's \<open>averageScore\<close> is the sum of its members' scores divided by
  their number.
\<close>

theorem groupRegions_partition_mean:
  "mset (concat (map group_regions (groupRegions regions maxDistance))) = mset regions \<and>
   [] \<notin> set (map group_regions (groupRegions regions maxDistance)) \<and>
   map group_averageScore (groupRegions regions maxDistance) =
     map (\<lambda>g. Some (sum_list (map pt_score (group_regions g)) / real (length (group_regions g))))
       (groupRegions regions maxDistance)"
proof -
  let ?st = "fold (seed regions maxDistance) [0..<length regions] ([], {})"
  have ok: "groups_ok regions ?st"
    by (rule fold_seed_ok) (simp add: groups_ok_def)
  have "{0..<length regions} \<subseteq> snd ?st"
    using fold_seed_visited [of "([], {})" "[0..<length regions]" regions maxDistance] by simp
  moreover have "snd ?st \<subseteq> {0..<length regions}"
    by (rule fold_seed_visited_bound) simp_all
  ultimately have v: "snd ?st = {0..<length regions}"
    by blast
  from ok v show ?thesis
    by (cases ?st) (simp add: groups_ok_def groupRegions_def image_mset_nth_upt)
qed

subsection \<open>Edge detection\<close>

lemma detectEdges_one_pixel: "detectEdges one_pixel = [None]"
  by (simp add: detectEdges_def one_pixel_def)

lemma magnitude_flat3: "magnitude flat3 (Suc 0) (Suc 0) = Num 0"
  by (simp add: magnitude_def flat3_def data_at_def sobelX_def sobelY_def Let_def)

lemma detectEdges_flat3:
  "detectEdges flat3 = [None, None, None, None, Some (Num 0), None, None, None, None]"
proof -
  have "detectEdges flat3 = (replicate 9 None)[4 := Some (magnitude flat3 1 1)]"
    by (simp add: detectEdges_def flat3_def upt_rec Let_def)
  then show ?thesis
    by (simp add: magnitude_flat3 eval_nat_numeral)
qed

lemma fold_update_length:
  "length (fold (\<lambda>p e. e[k p := v p]) ps e) = length e"
  by (induction ps arbitrary: e) simp_all

lemma fold_update_other:
  "i \<notin> k ` set ps \<Longrightarrow> fold (\<lambda>p e. e[k p := v p]) ps e ! i = e ! i"
  by (induction ps arbitrary: e) simp_all

lemma fold_update_hit:
  "p \<in> set ps \<Longrightarrow> inj_on k (set ps) \<Longrightarrow> k p < length e \<Longrightarrow>
   fold (\<lambda>p e. e[k p := v p]) ps e ! (k p) = v p"
proof (induction ps arbitrary: e)
  case Nil
  then show ?case by simp
next
  case (Cons q qs)
  show ?case
  proof (cases "p \<in> set qs")
    case True
    with Cons show ?thesis by simp
  next
    case False
    with Cons.prems have "p = q" and "k p \<notin> k ` set qs"
      by (auto simp: inj_on_def)
    with Cons.prems show ?thesis
      by (simp add: fold_update_other)
  qed
qed

lemma fold_nested_product:
  "fold (\<lambda>y. fold (\<lambda>x. g x y) xs) ys e = fold (\<lambda>(y, x). g x y) (List.product ys xs) e"
  by (induction ys arbitrary: e) (simp_all add: fold_map comp_def)

lemma detectEdges_product:
  "detectEdges imageData =
     fold (\<lambda>p e. e[fst p * width imageData + snd p :=
                     Some (magnitude imageData (snd p) (fst p))])
       (List.product [1..<height imageData - 1] [1..<width imageData - 1])
       (replicate (width imageData * height imageData) None)"
  unfolding detectEdges_def Let_def fold_nested_product
  by (simp add: case_prod_unfold)


lemma pixel_index_unique:
  fixes w :: nat
  assumes "y * w + x = y' * w + x'" "x < w" "x' < w"
  shows "y = y' \<and> x = x'"
proof -
  from assms have "(y * w + x) div w = (y' * w + x') div w" "(y * w + x) mod w = (y' * w + x') mod w"
    by simp_all
  with assms(2,3) show ?thesis by simp
qed

lemma pixel_index_bound:
  fixes w :: nat
  assumes "x < w" "y < h"
  shows "y * w + x < w * h"
proof -
  from assms have "y * w + x < y * w + w" by simp
  also have "\<dots> = (Suc y) * w" by simp
  also from assms have "\<dots> \<le> h * w" by (intro mult_le_mono1) simp
  finally show ?thesis by (simp add: mult.commute)
qed

lemma detectEdges_length:
  "length (detectEdges imageData) = width imageData * height imageData"
  by (simp add: detectEdges_product fold_update_length)

lemma detectEdges_nth:
  assumes "x < width imageData" "y < height imageData"
  shows "detectEdges imageData ! (y * width imageData + x) =
           (if 1 \<le> y \<and> y < height imageData - 1 \<and> 1 \<le> x \<and> x < width imageData - 1
            then Some (magnitude imageData x y) else None)"
proof -
  let ?w = "width imageData" and ?h = "height imageData"
  let ?ps = "List.product [1..<?h - 1] [1..<?w - 1]"
  let ?k = "\<lambda>p. fst p * ?w + snd p"
  let ?v = "\<lambda>p. Some (magnitude imageData (snd p) (fst p))"
  have bound: "y * ?w + x < ?w * ?h"
    using assms by (rule pixel_index_bound)
  show ?thesis
  proof (cases "1 \<le> y \<and> y < ?h - 1 \<and> 1 \<le> x \<and> x < ?w - 1")
    case True
    then have mem: "(y, x) \<in> set ?ps" by simp
    have inj: "inj_on ?k (set ?ps)"
    proof (rule inj_onI)
      fix p q assume "p \<in> set ?ps" "q \<in> set ?ps" "?k p = ?k q"
      then have "fst p = fst q \<and> snd p = snd q"
        by (intro pixel_index_unique [of _ ?w]) auto
      then show "p = q" by (simp add: prod_eq_iff)
    qed
    have "fold (\<lambda>p e. e[?k p := ?v p]) ?ps (replicate (?w * ?h) None) ! (?k (y, x)) = ?v (y, x)"
      using mem inj bound by (intro fold_update_hit) simp_all
    with True show ?thesis
      by (simp add: detectEdges_product)
  next
    case False
    have "y * ?w + x \<notin> ?k ` set ?ps"
    proof
      assume "y * ?w + x \<in> ?k ` set ?ps"
      then obtain p where p: "p \<in> set ?ps" "y * ?w + x = fst p * ?w + snd p" by auto
      then have "snd p < ?w" by auto
      with p(2) assms(1) have "y = fst p \<and> x = snd p"
        by (intro pixel_index_unique [of _ ?w]) auto
      with p(1) False show False by auto
    qed
    then have "fold (\<lambda>p e. e[?k p := ?v p]) ?ps (replicate (?w * ?h) None) ! (y * ?w + x)
                 = replicate (?w * ?h) None ! (y * ?w + x)"
      by (rule fold_update_other)
    with False bound show ?thesis
      by (simp add: detectEdges_product)
  qed
qed


lemma fold_invariant:
  assumes "P s" and "\<And>x s. x \<in> set xs \<Longrightarrow> P s \<Longrightarrow> P (f x s)"
  shows "P (fold f xs s)"
  using assms by (induction xs arbitrary: s) simp_all

lemma gray_finite:
  assumes "valid_buffer imageData" "px < width imageData" "py < height imageData"
  shows "\<exists>g. (data_at (data imageData) ((py * width imageData + px) * 4) +
              data_at (data imageData) ((py * width imageData + px) * 4 + 1) +
              data_at (data imageData) ((py * width imageData + px) * 4 + 2)) / Num 3 = Num g"
proof -
  have "py * width imageData + px < width imageData * height imageData"
    using assms(2,3) by (rule pixel_index_bound)
  with assms(1) have "(py * width imageData + px) * 4 + 2 < length (data imageData)"
    by (simp add: valid_buffer_def)
  then obtain a0 a1 a2 where
    "data_at (data imageData) ((py * width imageData + px) * 4) = Num a0"
    "data_at (data imageData) ((py * width imageData + px) * 4 + 1) = Num a1"
    "data_at (data imageData) ((py * width imageData + px) * 4 + 2) = Num a2"
    by (simp add: data_at_def)
  then show ?thesis
    by (intro exI [of _ "(a0 + a1 + a2) / 3"]) simp
qed

lemma neighbour_index:
  assumes "1 \<le> x" "1 \<le> y" "ky \<in> {-1, 0, 1}" "kx \<in> {-1, 0, 1}"
  shows "nat ((int y + ky) * int w + (int x + kx)) = nat (int y + ky) * w + nat (int x + kx)"
proof -
  from assms have "0 \<le> int y + ky" "0 \<le> int x + kx" by auto
  then show ?thesis
    by (simp add: nat_add_distrib nat_mult_distrib)
qed

lemma magnitude_nonneg:
  assumes v: "valid_buffer imageData"
    and x: "1 \<le> x" "x < width imageData - 1"
    and y: "1 \<le> y" "y < height imageData - 1"
  shows "\<exists>r\<ge>0. magnitude imageData x y = Num r"
proof -
  let ?P = "\<lambda>acc :: jsnum \<times> jsnum. \<exists>a b. acc = (Num a, Num b)"
  let ?body = "\<lambda>ky kx (gx, gy).
      let idx = nat ((int y + ky) * int (width imageData) + (int x + kx)) * 4;
          gray = (data_at (data imageData) idx + data_at (data imageData) (idx + 1) +
                  data_at (data imageData) (idx + 2)) / Num 3;
          kernelIdx = nat ((ky + 1) * 3 + (kx + 1))
      in (gx + gray * Num (sobelX ! kernelIdx), gy + gray * Num (sobelY ! kernelIdx))"
  have step: "?P (?body ky kx acc)"
    if "ky \<in> {-1, 0, 1}" "kx \<in> {-1, 0, 1}" "?P acc" for ky kx acc
  proof -
    from that(3) obtain a b where acc: "acc = (Num a, Num b)" by blast
    have idx: "nat ((int y + ky) * int (width imageData) + (int x + kx)) =
                 nat (int y + ky) * width imageData + nat (int x + kx)"
      using x(1) y(1) that(1,2) by (rule neighbour_index)
    have "nat (int x + kx) < width imageData" "nat (int y + ky) < height imageData"
      using x y that(1,2) by auto
    from gray_finite [OF v this] obtain g where
      "(data_at (data imageData) ((nat (int y + ky) * width imageData + nat (int x + kx)) * 4) +
        data_at (data imageData) ((nat (int y + ky) * width imageData + nat (int x + kx)) * 4 + 1) +
        data_at (data imageData) ((nat (int y + ky) * width imageData + nat (int x + kx)) * 4 + 2))
         / Num 3 = Num g"
      by blast
    then show ?thesis
      by (simp add: acc idx Let_def)
  qed
  have "?P (fold (\<lambda>ky. fold (?body ky) [-1, 0, 1]) [-1, 0, 1] (Num 0, Num 0))"
  proof (rule fold_invariant)
    show "?P (Num 0, Num 0)" by simp
  next
    fix ky :: int and s :: "jsnum \<times> jsnum"
    assume ky: "ky \<in> set [-1, 0, 1]" and s: "?P s"
    show "?P (fold (?body ky) [-1, 0, 1] s)"
    proof (rule fold_invariant)
      show "?P s" by (rule s)
    next
      fix kx :: int and s' :: "jsnum \<times> jsnum"
      assume "kx \<in> set [-1, 0, 1]" and "?P s'"
      with ky show "?P (?body ky kx s')"
        by (intro step) simp_all
    qed
  qed
  then obtain a b where
    "fold (\<lambda>ky. fold (?body ky) [-1, 0, 1]) [-1, 0, 1] (Num 0, Num 0) = (Num a, Num b)"
    by blast
  then have "magnitude imageData x y = Num (sqrt (a * a + b * b))"
    unfolding magnitude_def Let_def by (simp add: not_less)
  then show ?thesis
    by (intro exI [of _ "sqrt (a * a + b * b)"]) simp
qed


lemma detectEdges_nth_linear:
  assumes "0 < width imageData" "i < width imageData * height imageData"
  shows "detectEdges imageData ! i =
           (if 1 \<le> i div width imageData \<and> i div width imageData < height imageData - 1 \<and>
               1 \<le> i mod width imageData \<and> i mod width imageData < width imageData - 1
            then Some (magnitude imageData (i mod width imageData) (i div width imageData))
            else None)"
proof -
  let ?w = "width imageData"
  from assms have "i mod ?w < ?w" by simp
  moreover from assms have "i div ?w < height imageData"
    by (simp add: less_mult_imp_div_less mult.commute)
  ultimately have "detectEdges imageData ! (i div ?w * ?w + i mod ?w) =
           (if 1 \<le> i div ?w \<and> i div ?w < height imageData - 1 \<and>
               1 \<le> i mod ?w \<and> i mod ?w < ?w - 1
            then Some (magnitude imageData (i mod ?w) (i div ?w)) else None)"
    by (rule detectEdges_nth)
  then show ?thesis by simp
qed

text \<open>
  C1 (amended): for every valid buffer the array returned by \<open>detectEdges\<close> has
  width * height entries; the entry of an interior pixel is its gradient magnitude, a
  non-negative number; every entry on a border row or column is unset (a hole, which
  reads as \<open>undefined\<close>, not the number 0); so every entry is unset or a non-negative
  number, and when width < 3 or height < 3 every entry is unset.
\<close>

theorem detectEdges_entries:
  assumes v: "valid_buffer imageData"
  shows "length (detectEdges imageData) = width imageData * height imageData \<and>
         (\<forall>x y. x < width imageData \<and> y < height imageData \<longrightarrow>
            detectEdges imageData ! (y * width imageData + x) =
              (if 1 \<le> y \<and> y < height imageData - 1 \<and> 1 \<le> x \<and> x < width imageData - 1
               then Some (magnitude imageData x y) else None)) \<and>
         (\<forall>x y. 1 \<le> y \<and> y < height imageData - 1 \<and> 1 \<le> x \<and> x < width imageData - 1 \<longrightarrow>
            (\<exists>r\<ge>0. magnitude imageData x y = Num r)) \<and>
         (\<forall>e \<in> set (detectEdges imageData). e = None \<or> (\<exists>r\<ge>0. e = Some (Num r))) \<and>
         (width imageData < 3 \<or> height imageData < 3 \<longrightarrow>
            detectEdges imageData = replicate (width imageData * height imageData) None)"
proof -
  let ?w = "width imageData" and ?h = "height imageData"
  from v have w: "0 < ?w" by (simp add: valid_buffer_def)
  have len: "length (detectEdges imageData) = ?w * ?h"
    by (rule detectEdges_length)
  have nth: "\<forall>x y. x < ?w \<and> y < ?h \<longrightarrow>
            detectEdges imageData ! (y * ?w + x) =
              (if 1 \<le> y \<and> y < ?h - 1 \<and> 1 \<le> x \<and> x < ?w - 1
               then Some (magnitude imageData x y) else None)"
    by (simp add: detectEdges_nth)
  have mag: "\<forall>x y. 1 \<le> y \<and> y < ?h - 1 \<and> 1 \<le> x \<and> x < ?w - 1 \<longrightarrow>
            (\<exists>r\<ge>0. magnitude imageData x y = Num r)"
    using magnitude_nonneg [OF v] by blast
  have entries: "\<forall>e \<in> set (detectEdges imageData). e = None \<or> (\<exists>r\<ge>0. e = Some (Num r))"
  proof
    fix e assume "e \<in> set (detectEdges imageData)"
    then obtain i where i: "i < ?w * ?h" "e = detectEdges imageData ! i"
      by (auto simp: in_set_conv_nth len)
    show "e = None \<or> (\<exists>r\<ge>0. e = Some (Num r))"
      using i(2) detectEdges_nth_linear [OF w i(1)] mag by auto
  qed
  have small: "detectEdges imageData = replicate (?w * ?h) None" if "?w < 3 \<or> ?h < 3"
  proof (rule nth_equalityI)
    show "length (detectEdges imageData) = length (replicate (?w * ?h) None)"
      by (simp add: len)
  next
    fix i assume "i < length (detectEdges imageData)"
    then have i: "i < ?w * ?h" by (simp add: len)
    from w have "i mod ?w < ?w" by simp
    moreover from i have "i div ?w < ?h"
      by (simp add: less_mult_imp_div_less mult.commute)
    ultimately have "\<not> (1 \<le> i div ?w \<and> i div ?w < ?h - 1 \<and> 1 \<le> i mod ?w \<and> i mod ?w < ?w - 1)"
      using that by auto
    with detectEdges_nth_linear [OF w i] i
    show "detectEdges imageData ! i = replicate (?w * ?h) None ! i"
      by simp
  qed
  from len nth mag entries small show ?thesis by blast
qed

theorem detectEdges_entries_witness:
  "valid_buffer flat3 \<and> length (detectEdges flat3) = 9 \<and>
   detectEdges flat3 ! 0 = None \<and> detectEdges flat3 ! 4 = Some (magnitude flat3 1 1) \<and>
   (\<exists>r\<ge>0. magnitude flat3 1 1 = Num r)"
proof -
  have v: "valid_buffer flat3"
    by (simp add: valid_buffer_def flat3_def)
  have d: "width flat3 = 3" "height flat3 = 3"
    by (simp_all add: flat3_def)
  note t = detectEdges_entries [OF v, unfolded d]
  from t have nth: "x < 3 \<and> y < 3 \<Longrightarrow> detectEdges flat3 ! (y * 3 + x) =
      (if 1 \<le> y \<and> y < 3 - 1 \<and> 1 \<le> x \<and> x < 3 - 1 then Some (magnitude flat3 x y) else None)"
    for x y by blast
  from t have mag: "1 \<le> y \<and> y < 3 - 1 \<and> 1 \<le> x \<and> x < 3 - 1 \<Longrightarrow> \<exists>r\<ge>0. magnitude flat3 x y = Num r"
    for x y by blast
  from t have "length (detectEdges flat3) = 9" by simp
  moreover from nth [of 0 0] have "detectEdges flat3 ! 0 = None" by simp
  moreover from nth [of 1 1] have "detectEdges flat3 ! 4 = Some (magnitude flat3 1 1)" by simp
  moreover from mag [of 1 1] have "\<exists>r\<ge>0. magnitude flat3 1 1 = Num r" by simp
  ultimately show ?thesis using v by simp
qed

text \<open>
  The claim as stated fails: the only entry of the map of a 1 by 1 buffer is unset, and
  so are the border entries of the map of a 3 by 3 buffer.
\<close>

theorem detectEdges_holes_counterexample:
  "valid_buffer one_pixel \<and> width one_pixel < 3 \<and>
   detectEdges one_pixel = [None] \<and> detectEdges one_pixel \<noteq> [Some (Num 0)] \<and>
   valid_buffer flat3 \<and>
   detectEdges flat3 = [None, None, None, None, Some (Num 0), None, None, None, None] \<and>
   detectEdges flat3 ! 0 \<noteq> Some (Num 0)"
proof -
  have "valid_buffer one_pixel" "width one_pixel < 3"
    by (simp_all add: valid_buffer_def one_pixel_def)
  moreover have "valid_buffer flat3"
    by (simp add: valid_buffer_def flat3_def)
  ultimately show ?thesis
    by (simp add: detectEdges_one_pixel detectEdges_flat3)
qed

subsection \<open>Composition scores\<close>

lemma NaN_plus [simp]: "NaN + (a::jsnum) = NaN" "a + NaN = NaN"
  by (cases a; simp)+

lemma NaN_times [simp]: "NaN * (a::jsnum) = NaN" "a * NaN = NaN"
  by (cases a; simp)+

lemma NaN_divide [simp]: "NaN / (a::jsnum) = NaN" "a / NaN = NaN"
  by (cases a; simp)+

lemma NaN_minus [simp]: "NaN - (a::jsnum) = NaN" "a - NaN = NaN"
  by (cases a; simp add: minus_jsnum_def)+

lemma upto_01: "[0..(1::int)] = [0, 1]" "[0..(0::int)] = [0]" "[1..(1::int)] = [1]"
  by (simp_all add: upto.simps)

lemma weight_black2:
  "calculateVisualWeight (data black2) 0 0 1 2 = Num 0"
  "calculateVisualWeight (data black2) 1 0 1 2 = Num 0"
  "calculateVisualWeight (data black2) 0 0 2 1 = Num 0"
  "calculateVisualWeight (data black2) 0 1 2 1 = Num 0"
  by (simp_all add: calculateVisualWeight_def black2_def upto_01 Let_def
      mean_rgb_num_def data_at_num_def data_at_def)

lemma balance_black2: "balanceAnalysis black2 None = NaN"
proof -
  have "width black2 = 2" "height black2 = 2" by (simp_all add: black2_def)
  then show ?thesis
    by (simp add: balanceAnalysis_def Let_def weight_black2 minus_jsnum_def)
qed

lemma rules_black2: "analyzeCompositionRules black2 None = NaN"
  by (simp add: analyzeCompositionRules_def compositionRules_def balance_black2)


lemma technicalFeedback_scores:
  "overallScore (technicalFeedback a) = overallScore a"
  "compositionScore (technicalFeedback a) = compositionScore a"
  by (simp_all add: technicalFeedback_def)

lemma artisticFeedback_scores:
  "overallScore (artisticFeedback a) = overallScore a"
  "compositionScore (artisticFeedback a) = compositionScore a"
  by (simp_all add: artisticFeedback_def)

lemma compositionFeedback_scores:
  "overallScore (compositionFeedback a) = overallScore a"
  "compositionScore (compositionFeedback a) = compositionScore a"
  by (simp_all add: compositionFeedback_def)

lemma overallFeedback_scores:
  "overallScore (overallFeedback a) = overallScore a"
  "compositionScore (overallFeedback a) = compositionScore a"
  by (simp_all add: overallFeedback_def)

lemma generateFeedback_scores:
  "overallScore (generateFeedback a) = overallScore a"
  "compositionScore (generateFeedback a) = compositionScore a"
  by (simp_all only: generateFeedback_def overallFeedback_scores compositionFeedback_scores
      artisticFeedback_scores technicalFeedback_scores)

lemma overall_black2:
  "overallScore (analyzeComposition black2 None) = NaN"
  "compositionScore (analyzeComposition black2 None) = NaN"
  by (simp_all add: analyzeComposition_def generateFeedback_scores rules_black2 Let_def)

text \<open>
  C2: the claim asks for every sub-score, their mean and the overall score to lie in
  [0,1]. On the 2 by 2 black buffer, with no crop, the four visual weights are 0, so
  \<open>balanceAnalysis\<close> divides 0 by 0: the balance sub-score is NaN, and with it the
  composition score and the overall score, none of which lies in [0,1].
\<close>

theorem composition_scores_black_buffer:
  "valid_buffer black2 \<and>
   balanceAnalysis black2 None = NaN \<and>
   compositionScore (analyzeComposition black2 None) = NaN \<and>
   overallScore (analyzeComposition black2 None) = NaN \<and>
   \<not> (Num 0 \<le> NaN \<and> NaN \<le> Num 1)"
proof -
  have "valid_buffer black2"
    by (simp add: valid_buffer_def black2_def)
  then show ?thesis
    by (simp add: balance_black2 overall_black2 less_eq_jsnum_def)
qed

subsection \<open>Balance\<close>

lemma for_range_num_nat:
  "for_range_num (real a) (real a + real n) 1 = map real [a..<a + n]"
proof (induction n arbitrary: a)
  case 0
  then show ?case by (subst for_range_num.simps) simp
next
  case (Suc n)
  have "for_range_num (real a) (real a + real (Suc n)) 1 =
          real a # for_range_num (real (Suc a)) (real (Suc a) + real n) 1"
    by (subst for_range_num.simps) (simp add: add.commute add.left_commute)
  also have "\<dots> = real a # map real [Suc a..<Suc a + n]"
    by (simp only: Suc.IH)
  also have "\<dots> = map real [a..<a + Suc n]"
    by (simp add: upt_rec [of a])
  finally show ?case .
qed

lemma data_at_num_nat: "data_at_num d (real k) = data_at d k"
  by (simp add: data_at_num_def)

lemma mean_rgb_num_nat: "mean_rgb_num d (real k) = mean_rgb d k"
proof -
  have "real k + 1 = real (k + 1)" "real k + 2 = real (k + 2)" by simp_all
  then show ?thesis
    unfolding mean_rgb_num_def mean_rgb_def by (simp only: data_at_num_nat)
qed

lemma mean_rgb_luma:
  assumes "valid_buffer imageData" "x < width imageData" "y < height imageData"
  shows "mean_rgb (data imageData) ((y * width imageData + x) * 4) = Num (luma imageData x y)"
proof -
  have "y * width imageData + x < width imageData * height imageData"
    using assms(2,3) by (rule pixel_index_bound)
  with assms(1) have "(y * width imageData + x) * 4 + 2 < length (data imageData)"
    by (simp add: valid_buffer_def)
  then show ?thesis
    by (simp add: mean_rgb_def data_at_def luma_def Let_def)
qed

lemma fold_Num_sum:
  assumes "\<And>x a. x \<in> set xs \<Longrightarrow> f x (Num a) = Num (a + g x)"
  shows "fold f xs (Num a) = Num (a + sum_list (map g xs))"
  using assms by (induction xs arbitrary: a) (simp_all add: add.assoc)

lemma quadrantWeight_spec:
  assumes v: "valid_buffer imageData"
    and x: "x0 + width imageData div 2 \<le> width imageData"
    and y: "y0 + height imageData div 2 \<le> height imageData"
  shows "quadrantWeight imageData (real x0) (real y0)
           (real (width imageData div 2)) (real (height imageData div 2)) =
         Num (spec_quadrantWeight imageData x0 y0)"
proof -
  let ?w = "width imageData" and ?d = "data imageData"
  let ?xs = "[x0..<x0 + ?w div 2]" and ?ys = "[y0..<y0 + height imageData div 2]"
  let ?body = "\<lambda>yy xx weight.
             let idx = (real yy * real ?w + real xx) * 4; brightness = mean_rgb_num ?d idx
             in weight + brightness"
  have row: "fold (?body yy) ?xs (Num a) = Num (a + sum_list (map (\<lambda>x. luma imageData x yy) ?xs))"
    if yy: "yy \<in> set ?ys" for yy a
  proof (rule fold_Num_sum)
    fix xx a' assume "xx \<in> set ?xs"
    with x y yy have b: "xx < ?w" "yy < height imageData" by auto
    have "(real yy * real ?w + real xx) * 4 = real ((yy * ?w + xx) * 4)" by simp
    then have "mean_rgb_num ?d ((real yy * real ?w + real xx) * 4) = Num (luma imageData xx yy)"
      by (simp only: mean_rgb_num_nat mean_rgb_luma [OF v b])
    then show "?body yy xx (Num a') = Num (a' + luma imageData xx yy)"
      by (simp add: Let_def)
  qed
  have "quadrantWeight imageData (real x0) (real y0) (real (?w div 2))
          (real (height imageData div 2)) =
        fold (\<lambda>yy. fold (?body yy) ?xs) ?ys (Num 0)"
    unfolding quadrantWeight_def for_range_num_nat fold_map by (simp add: comp_def)
  also have "\<dots> = Num (0 + sum_list (map (\<lambda>yy. sum_list (map (\<lambda>x. luma imageData x yy) ?xs)) ?ys))"
    by (rule fold_Num_sum) (rule row)
  also have "\<dots> = Num (spec_quadrantWeight imageData x0 y0)"
    by (simp add: spec_quadrantWeight_def regionWeight_def)
  finally show ?thesis .
qed

lemma calculateBalance_quadrant_mean:
  assumes v: "valid_buffer imageData"
    and ev: "even (width imageData)" "even (height imageData)"
    and nz: "sum_list (spec_quadrantWeights imageData) \<noteq> 0"
  shows "calculateBalance imageData = Num (spec_balance imageData)"
proof -
  let ?w = "width imageData" and ?h = "height imageData"
  from ev have half: "real ?w / 2 = real (?w div 2)" "real ?h / 2 = real (?h div 2)"
    by (simp_all add: real_of_nat_div)
  from ev have le: "0 + ?w div 2 \<le> ?w" "?w div 2 + ?w div 2 \<le> ?w"
    "0 + ?h div 2 \<le> ?h" "?h div 2 + ?h div 2 \<le> ?h"
    by simp_all
  have q: "quadrantWeight imageData 0 0 (real (?w div 2)) (real (?h div 2)) =
             Num (spec_quadrantWeight imageData 0 0)"
    "quadrantWeight imageData (real (?w div 2)) 0 (real (?w div 2)) (real (?h div 2)) =
             Num (spec_quadrantWeight imageData (?w div 2) 0)"
    "quadrantWeight imageData 0 (real (?h div 2)) (real (?w div 2)) (real (?h div 2)) =
             Num (spec_quadrantWeight imageData 0 (?h div 2))"
    "quadrantWeight imageData (real (?w div 2)) (real (?h div 2)) (real (?w div 2)) (real (?h div 2)) =
             Num (spec_quadrantWeight imageData (?w div 2) (?h div 2))"
    using quadrantWeight_spec [OF v le(1) le(3)] quadrantWeight_spec [OF v le(2) le(3)]
      quadrantWeight_spec [OF v le(1) le(4)] quadrantWeight_spec [OF v le(2) le(4)]
    by simp_all
  from nz show ?thesis
    unfolding calculateBalance_def Let_def half
    by (simp add: q spec_balance_def spec_quadrantWeights_def minus_jsnum_def Let_def add.assoc)
qed

lemma upto_nat: "[int a..int a + int n - 1] = map int [a..<a + n]"
proof (induction n arbitrary: a)
  case 0
  then show ?case by simp
next
  case (Suc n)
  have "[int a..int a + int (Suc n) - 1] = int a # [int (Suc a)..int (Suc a) + int n - 1]"
    by (subst upto_rec1) (simp_all add: algebra_simps)
  also have "\<dots> = int a # map int [Suc a..<Suc a + n]"
    by (simp only: Suc.IH)
  also have "\<dots> = map int [a..<a + Suc n]"
    by (simp add: upt_rec [of a])
  finally show ?case .
qed

lemma upto_nat': "a \<le> b \<Longrightarrow> [int a..int b - 1] = map int [a..<b]"
  using upto_nat [of a "b - a"] by (simp add: of_nat_diff)

lemma floor_half: "\<lfloor>real n / 2\<rfloor> = int (n div 2)"
  using floor_divide_of_nat_eq [of n 2] by simp

lemma calculateVisualWeight_square:
  assumes v: "valid_buffer imageData"
    and sq: "height imageData = width imageData"
    and fl: "\<lfloor>x\<rfloor> = int x0" "\<lfloor>x + w\<rfloor> = int x1" "\<lfloor>y\<rfloor> = int y0" "\<lfloor>y + h\<rfloor> = int y1"
    and le: "x0 \<le> x1" "x1 \<le> width imageData" "y0 \<le> y1" "y1 \<le> width imageData"
  shows "calculateVisualWeight (data imageData) x y w h = Num (regionWeight imageData x0 x1 y0 y1)"
proof -
  let ?n = "width imageData" and ?d = "data imageData"
  from v sq have len: "length ?d = ?n * ?n * 4" by (simp add: valid_buffer_def)
  have stride: "sqrt (real (length ?d) / 4) = real ?n"
    by (simp add: len real_sqrt_mult_self)
  let ?body = "\<lambda>py px weight.
                 let idx = (real_of_int (int py) * sqrt (real (length ?d) / 4) + real_of_int (int px)) * 4
                 in if idx < real (length ?d) - 3 then weight + mean_rgb_num ?d idx else weight"
  have cell: "?body py px (Num a) = Num (a + luma imageData px py)"
    if "px \<in> set [x0..<x1]" "py \<in> set [y0..<y1]" for px py a
  proof -
    from that le have b: "px < ?n" "py < height imageData" by (auto simp: sq)
    then have "py * ?n + px < ?n * ?n"
      using pixel_index_bound [of px ?n py ?n] by (simp add: sq)
    then have "(py * ?n + px) * 4 + 4 \<le> length ?d" by (simp add: len)
    then have lt: "real ((py * ?n + px) * 4) < real (length ?d) - 3"
      by linarith
    have idx: "(real_of_int (int py) * real ?n + real_of_int (int px)) * 4 = real ((py * ?n + px) * 4)"
      by simp
    show ?thesis
      unfolding stride idx Let_def using lt
      by (simp only: mean_rgb_num_nat mean_rgb_luma [OF v b] if_True plus_jsnum.simps)
  qed
  have row: "fold (?body py) [x0..<x1] (Num a) =
               Num (a + sum_list (map (\<lambda>px. luma imageData px py) [x0..<x1]))"
    if "py \<in> set [y0..<y1]" for py a
    by (rule fold_Num_sum) (rule cell [OF _ that])
  have "calculateVisualWeight ?d x y w h = fold (\<lambda>py. fold (?body py) [x0..<x1]) [y0..<y1] (Num 0)"
    unfolding calculateVisualWeight_def Let_def fl upto_nat' [OF le(1)] upto_nat' [OF le(3)] fold_map
    by (simp add: comp_def)
  also have "\<dots> = Num (0 + sum_list (map (\<lambda>py. sum_list (map (\<lambda>px. luma imageData px py) [x0..<x1]))
                                      [y0..<y1]))"
    by (rule fold_Num_sum) (rule row)
  finally show ?thesis by (simp add: regionWeight_def)
qed


lemma balanceAnalysis_square:
  assumes v: "valid_buffer imageData" and sq: "height imageData = width imageData"
  shows "balanceAnalysis imageData cropSelection = half_balance imageData"
proof -
  let ?n = "width imageData" and ?d = "data imageData"
  have two: "real ?n / 2 + real ?n / 2 = real ?n" by simp
  have l: "calculateVisualWeight ?d 0 0 (real ?n / 2) (real ?n) =
             Num (regionWeight imageData 0 (?n div 2) 0 ?n)"
    by (rule calculateVisualWeight_square [OF v sq]) (simp_all add: floor_half)
  have r: "calculateVisualWeight ?d (real ?n / 2) 0 (real ?n / 2) (real ?n) =
             Num (regionWeight imageData (?n div 2) ?n 0 ?n)"
    by (rule calculateVisualWeight_square [OF v sq]) (simp_all add: floor_half two)
  have t: "calculateVisualWeight ?d 0 0 (real ?n) (real ?n / 2) =
             Num (regionWeight imageData 0 ?n 0 (?n div 2))"
    by (rule calculateVisualWeight_square [OF v sq]) (simp_all add: floor_half)
  have b: "calculateVisualWeight ?d 0 (real ?n / 2) (real ?n) (real ?n / 2) =
             Num (regionWeight imageData 0 ?n (?n div 2) ?n)"
    by (rule calculateVisualWeight_square [OF v sq]) (simp_all add: floor_half two)
  show ?thesis
    unfolding balanceAnalysis_def half_balance_def Let_def sq
    by (simp only: l r t b)
qed

text \<open>
  C3 (amended): for every valid buffer, the score of
  \<open>AdvancedImageAnalysis.calculateBalance\<close> equals the mean over the four quadrants of
  \<open>1 - |quadrantWeight / totalWeight - 0.25|\<close> when width and height are even and the
  total weight is not 0; the balance sub-score of the composition score,
  \<open>AIComposer.balanceAnalysis\<close>, is on a square buffer the mean of the horizontal and
  the vertical balance \<open>1 - |a - b| / max(a, b)\<close> of the weights of the two halves.
\<close>

theorem balance_scores:
  assumes v: "valid_buffer imageData"
  shows "(even (width imageData) \<and> even (height imageData) \<and>
          sum_list (spec_quadrantWeights imageData) \<noteq> 0 \<longrightarrow>
            calculateBalance imageData = Num (spec_balance imageData)) \<and>
         (height imageData = width imageData \<longrightarrow>
            balanceAnalysis imageData cropSelection = half_balance imageData)"
  using calculateBalance_quadrant_mean [OF v] balanceAnalysis_square [OF v] by blast

lemma luma_half_white:
  "luma half_white 0 0 = 255" "luma half_white (Suc 0) 0 = 0"
  "luma half_white 0 (Suc 0) = 255" "luma half_white (Suc 0) (Suc 0) = 0"
  by (simp_all add: luma_def half_white_def)

lemma upt_small:
  "[0..<1] = [0]" "[0..<2] = [0, 1]" "[1..<2] = [1]"
  "[0..<Suc 0] = [0]" "[Suc 0..<2] = [Suc 0]"
  by (simp_all add: upt_rec)

lemma luma_half_white_numeral:
  "luma half_white 0 0 = 255" "luma half_white 1 0 = 0"
  "luma half_white 0 1 = 255" "luma half_white 1 1 = 0"
  by (simp_all add: luma_def half_white_def)

lemma dims_half_white: "width half_white = 2" "height half_white = 2"
  by (simp_all add: half_white_def)

lemma spec_balance_half_white:
  "sum_list (spec_quadrantWeights half_white) = 510" "spec_balance half_white = 3 / 4"
  by (simp_all add: spec_balance_def spec_quadrantWeights_def spec_quadrantWeight_def
      dims_half_white regionWeight_def upt_small luma_half_white luma_half_white_numeral)

lemma half_balance_half_white: "half_balance half_white = Num (1 / 2)"
  by (simp add: half_balance_def dims_half_white regionWeight_def upt_small luma_half_white luma_half_white_numeral
      minus_jsnum_def)

theorem balance_scores_witness:
  "valid_buffer half_white \<and> calculateBalance half_white = Num (3 / 4) \<and>
   balanceAnalysis half_white None = Num (1 / 2)"
proof -
  have v: "valid_buffer half_white"
    by (simp add: valid_buffer_def half_white_def)
  from balance_scores [OF v, of None] v show ?thesis
    by (simp add: dims_half_white spec_balance_half_white half_balance_half_white)
qed

text \<open>
  The claim as stated fails: on the buffer whose left half is white and whose right half
  is black the balance sub-score is 1/2, the quadrant formula gives 3/4.
\<close>

theorem balance_quadrant_counterexample:
  "valid_buffer half_white \<and> balanceAnalysis half_white None = Num (1 / 2) \<and>
   spec_balance half_white = 3 / 4 \<and>
   balanceAnalysis half_white None \<noteq> Num (spec_balance half_white)"
proof -
  have v: "valid_buffer half_white"
    by (simp add: valid_buffer_def half_white_def)
  have "balanceAnalysis half_white None = Num (1 / 2)"
    using balanceAnalysis_square [OF v, of None]
    by (simp add: dims_half_white half_balance_half_white)
  with v show ?thesis
    by (simp add: spec_balance_half_white)
qed

subsection \<open>Leading lines\<close>

lemma fold_count:
  "fold (\<lambda>p votes. if P p then votes + 1 else votes) ps (v::nat) = v + length (filter P ps)"
  by (induction ps arbitrary: v) simp_all

lemma fold_count_total:
  "fold (\<lambda>p (c, t). (if P p then c + 1 else c, t + 1)) ps (c0::nat, t0::nat) =
     (c0 + length (filter P ps), t0 + length ps)"
  by (induction ps arbitrary: c0 t0) simp_all

lemma fold_push:
  "fold (\<lambda>p lines. if P p then lines @ [f p] else lines) ps ls = ls @ map f (filter P ps)"
  by (induction ps arbitrary: ls) simp_all

lemma houghVotes_spec:
  "houghVotes (detectEdges imageData) (width imageData) (height imageData) angle distance =
     spec_votes imageData angle distance"
proof -
  let ?P = "\<lambda>(y, x). edge_gt (detectEdges imageData) (y * width imageData + x) 20 \<and>
                \<bar>real x * cos (real angle * pi / 180) + real y * sin (real angle * pi / 180)
                   - distance\<bar> < 5"
  have "houghVotes (detectEdges imageData) (width imageData) (height imageData) angle distance =
          fold (\<lambda>p votes. if ?P p then votes + 1 else votes)
            (List.product (for_range 0 (height imageData) 2) (for_range 0 (width imageData) 2)) 0"
    unfolding houghVotes_def fold_nested_product Let_def
    by (rule arg_cong [where f = "\<lambda>f. fold f _ _"]) (auto simp: fun_eq_iff)
  then show ?thesis
    by (simp only: fold_count spec_votes_def)
qed

lemma houghLines_spec: "houghLines imageData = spec_lines imageData"
proof -
  let ?mk = "\<lambda>(angle, distance).
               \<lparr>line_angle = angle, line_distance = distance,
                line_votes = spec_votes imageData angle distance\<rparr>"
  let ?ps = "List.product (for_range 0 180 5)
             (for_range_num 0 (sqrt (real (width imageData * width imageData +
                             height imageData * height imageData))) 10)"
  have "houghLines imageData =
          fold (\<lambda>p lines. if 50 < spec_votes imageData (fst p) (snd p)
                           then lines @ [?mk p] else lines) ?ps []"
    unfolding houghLines_def fold_nested_product Let_def houghVotes_spec
    by (rule arg_cong [where f = "\<lambda>f. fold f _ _"]) (auto simp: fun_eq_iff)
  also have "\<dots> = map ?mk (filter (\<lambda>p. 50 < spec_votes imageData (fst p) (snd p)) ?ps)"
    by (simp only: fold_push) simp
  also have "\<dots> = spec_lines imageData"
    unfolding spec_lines_def filter_map by (simp add: comp_def case_prod_unfold)
  finally show ?thesis .
qed


lemma hd_Array_sort_votes:
  assumes "xs \<noteq> []"
  shows "Array_sort (\<lambda>a b. Num (real (line_votes b)) - Num (real (line_votes a))) xs \<noteq> [] \<and>
         line_votes (Array_sort (\<lambda>a b. Num (real (line_votes b)) - Num (real (line_votes a))) xs ! 0)
           = Max (set (map line_votes xs))"
proof -
  let ?key = "\<lambda>l. Num (real (line_votes l))"
  let ?s = "Array_sort (\<lambda>a b. ?key b - ?key a) xs"
  have set: "set ?s = set xs" by (rule set_Array_sort)
  with assms have ne: "?s \<noteq> []" by auto
  have "sorted_wrt (\<lambda>a b. ?key b \<le> ?key a) ?s"
    by (rule sorted_Array_sort) simp
  with ne have top: "\<forall>l \<in> set ?s. line_votes l \<le> line_votes (?s ! 0)"
    by (cases ?s) (auto simp: Num_le)
  have "Max (set (map line_votes xs)) = line_votes (?s ! 0)"
  proof (rule Max_eqI)
    show "finite (set (map line_votes xs))" by simp
  next
    fix v assume "v \<in> set (map line_votes xs)"
    with set top show "v \<le> line_votes (?s ! 0)" by auto
  next
    from ne have "?s ! 0 \<in> set ?s" by (simp add: nth_mem)
    with set show "line_votes (?s ! 0) \<in> set (map line_votes xs)" by auto
  qed
  with ne show ?thesis by simp
qed

lemma Math_min_Num: "Math_min (Num a) (Num b) = Num (min a b)"
  by (simp add: min_def)

lemma detectLeadingLines_score:
  "lead_score (detectLeadingLines imageData) = Num (spec_leading_score imageData)"
proof (cases "spec_lines imageData = []")
  case True
  then show ?thesis
    by (simp add: detectLeadingLines_def houghLines_spec spec_leading_score_def Array_sort_def)
next
  case False
  from hd_Array_sort_votes [OF False] False show ?thesis
    by (simp add: detectLeadingLines_def houghLines_spec spec_leading_score_def Let_def
        Math_min_Num del: Math_min.simps)
qed

lemma leadingLinesAnalysis_count:
  "leadingLinesAnalysis imageData cropSelection =
     Math_min (Num 1)
       (Num (real (strong_edge_pixels imageData)) /
        (Num (real (height imageData * width imageData)) * Num 0.1))"
proof -
  let ?P = "\<lambda>(y, x). edge_gt (detectEdges imageData) (y * width imageData + x) 50"
  let ?ps = "List.product [0..<height imageData] [0..<width imageData]"
  have "fold (\<lambda>y. fold (\<lambda>x (leadingLinePixels, totalPixels).
                    (if edge_gt (detectEdges imageData) (y * width imageData + x) 50
                     then leadingLinePixels + 1 else leadingLinePixels,
                     totalPixels + 1))
                  [0..<width imageData])
              [0..<height imageData] (0::nat, 0::nat) =
        fold (\<lambda>p (c, t). (if ?P p then c + 1 else c, t + 1)) ?ps (0, 0)"
    unfolding fold_nested_product
    by (rule arg_cong [where f = "\<lambda>f. fold f _ _"]) (auto simp: fun_eq_iff)
  also have "\<dots> = (strong_edge_pixels imageData, height imageData * width imageData)"
    unfolding strong_edge_pixels_def by (simp only: fold_count_total) simp
  finally have loops: "fold (\<lambda>y. fold (\<lambda>x (leadingLinePixels, totalPixels).
                    (if edge_gt (detectEdges imageData) (y * width imageData + x) 50
                     then leadingLinePixels + 1 else leadingLinePixels,
                     totalPixels + 1))
                  [0..<width imageData])
              [0..<height imageData] (0::nat, 0::nat) =
        (strong_edge_pixels imageData, height imageData * width imageData)" .
  show ?thesis
    unfolding leadingLinesAnalysis_def Let_def loops
    by simp
qed

text \<open>
  C4 (amended): the Hough-style vote of the claim is what
  \<open>AdvancedImageAnalysis.detectLeadingLines\<close> computes: its candidate lines are the
  (angle, distance) pairs, angles 0, 5, ..., 175 and distances stepped by 10 below the
  diagonal, with more than 50 votes, and its score is \<open>min(topVotes / 100, 1)\<close>, or 0
  when no line is kept. The leading-lines sub-score of the composition score,
  \<open>AIComposer.leadingLinesAnalysis\<close>, is \<open>min(1, n / (0.1 * width * height))\<close> with
  \<open>n\<close> the number of pixels whose edge magnitude is above 50.
\<close>

theorem leading_lines_scores:
  "houghLines imageData = spec_lines imageData \<and>
   lead_score (detectLeadingLines imageData) = Num (spec_leading_score imageData) \<and>
   leadingLinesAnalysis imageData cropSelection =
     Math_min (Num 1)
       (Num (real (strong_edge_pixels imageData)) /
        (Num (real (height imageData * width imageData)) * Num 0.1)) \<and>
   for_range 0 180 5 = map (\<lambda>k. 5 * k) [0..<36]"
proof -
  have "for_range 0 180 5 = map (\<lambda>k. 5 * k) [0..<36]"
    by (simp add: for_range.simps upt_rec)
  with houghLines_spec detectLeadingLines_score leadingLinesAnalysis_count show ?thesis
    by blast
qed


lemma magnitude_edge3: "magnitude edge3 (Suc 0) (Suc 0) = Num 1020"
  by (simp add: magnitude_def edge3_def data_at_def sobelX_def sobelY_def Let_def)

lemma detectEdges_edge3:
  "detectEdges edge3 = [None, None, None, None, Some (Num 1020), None, None, None, None]"
proof -
  have "detectEdges edge3 = (replicate 9 None)[4 := Some (magnitude edge3 (Suc 0) (Suc 0))]"
    by (simp add: detectEdges_def edge3_def upt_rec Let_def)
  then show ?thesis
    by (simp add: magnitude_edge3 eval_nat_numeral)
qed

lemma dims_edge3: "width edge3 = 3" "height edge3 = 3"
  by (simp_all add: edge3_def)

lemma strong_edge_pixels_edge3: "strong_edge_pixels edge3 = 1"
  by (simp add: strong_edge_pixels_def dims_edge3 detectEdges_edge3 edge_gt_def upt_rec)

lemma spec_votes_edge3: "spec_votes edge3 angle distance = 0"
proof -
  have "for_range 0 3 2 = [0, 2]"
    by (simp add: for_range.simps)
  then show ?thesis
    by (simp add: spec_votes_def dims_edge3 detectEdges_edge3 edge_gt_def)
qed

lemma spec_lines_edge3: "spec_lines edge3 = []"
  unfolding spec_lines_def by (rule filter_False) (auto simp: spec_votes_edge3)

text \<open>
  The claim as stated fails: on the 3 by 3 buffer with one strong interior edge no
  sampled pixel is an edge pixel, so the vote keeps no line and gives 0, while the
  leading-lines sub-score is 1.
\<close>

theorem leading_lines_counterexample:
  "valid_buffer edge3 \<and> leadingLinesAnalysis edge3 None = Num 1 \<and>
   spec_leading_score edge3 = 0 \<and> lead_score (detectLeadingLines edge3) = Num 0 \<and>
   leadingLinesAnalysis edge3 None \<noteq> Num (spec_leading_score edge3)"
proof -
  have v: "valid_buffer edge3"
    by (simp add: valid_buffer_def edge3_def)
  have a: "leadingLinesAnalysis edge3 None = Num 1"
    by (simp add: leadingLinesAnalysis_count strong_edge_pixels_edge3 dims_edge3)
  have s: "spec_leading_score edge3 = 0"
    by (simp add: spec_leading_score_def spec_lines_edge3)
  have "lead_score (detectLeadingLines edge3) = Num 0"
    by (simp add: detectLeadingLines_score s)
  with v a s show ?thesis by simp
qed

end
